theory Spec2Isabelle
  imports Main "HOL-Library.Word" "HOL-Library.Signed_Division"
begin

unbundle bit_operations_syntax

section \<open>ptgen: the partition table generator of firmware-utils\<close>

text \<open>
  A shallow embedding of \<^verbatim>\<open>tools/firmware-utils/src/ptgen.c\<close>. The host is taken to be
  little-endian with 32-bit \<^verbatim>\<open>int\<close> and 64-bit \<^verbatim>\<open>long\<close> (LP64, the usual build host), so
  \<^verbatim>\<open>cpu_to_le32\<close> and \<^verbatim>\<open>cpu_to_le64\<close> are the identity. C integers are words of their
  width: \<open>+\<close>, \<open>-\<close> and \<open>*\<close> wrap around, \<open>scast\<close> is the conversion from a signed type
  (sign extension or truncation), \<open>ucast\<close> the conversion from an unsigned one. Signed
  arithmetic that overflows is taken to wrap, as the compiled code does; a division
  whose divisor is zero (or \<^verbatim>\<open>LONG_MIN / -1\<close>) traps, which the model reports as the
  error \<open>ArithFault\<close>.
\<close>

subsection \<open>C arithmetic\<close>

type_synonym byte = "8 word"

text \<open>Signed division and remainder of C99: the quotient is truncated towards zero.\<close>

definition c_div :: "'a::len word \<Rightarrow> 'a word \<Rightarrow> 'a word" where
  "c_div a b = word_of_int (sint a sdiv sint b)"

definition c_mod :: "'a::len word \<Rightarrow> 'a word \<Rightarrow> 'a word" where
  "c_mod a b = word_of_int (sint a smod sint b)"

definition div_traps :: "'a::len word \<Rightarrow> 'a word \<Rightarrow> bool" where
  "div_traps a b = (b = 0 \<or> (b = - 1 \<and> sint a = - (2 ^ (LENGTH('a) - 1))))"

subsection \<open>Errors, globals and the environment\<close>

datatype error =
    InvalidSize nat      \<comment> \<open>\<^verbatim>\<open>Invalid size in partition %d!\<close>\<close>
  | OpenFailed           \<comment> \<open>\<^verbatim>\<open>Can't open output file\<close>\<close>
  | WriteFailed          \<comment> \<open>\<^verbatim>\<open>write failed.\<close>\<close>
  | TooManyPartitions    \<comment> \<open>\<^verbatim>\<open>Too many partitions\<close>\<close>
  | InvalidGuid          \<comment> \<open>\<^verbatim>\<open>Invalid guid string\<close>\<close>
  | Usage                \<comment> \<open>the usage text, \<^verbatim>\<open>exit(EXIT_FAILURE)\<close>\<close>
  | ArithFault           \<comment> \<open>a trapping division\<close>
  | OutOfBounds          \<comment> \<open>an access outside an array\<close>

text \<open>Sequencing of steps that may fail: the first error ends the computation.\<close>

definition bind_err :: "'e + 'a \<Rightarrow> ('a \<Rightarrow> 'e + 'b) \<Rightarrow> 'e + 'b" where
  "bind_err m f = (case m of Inl e \<Rightarrow> Inl e | Inr x \<Rightarrow> f x)"

text \<open>\<^verbatim>\<open>struct partinfo\<close>: the size in KiB (\<^verbatim>\<open>unsigned long\<close>) and the type (\<^verbatim>\<open>int\<close>).\<close>

record partinfo =
  p_size :: "64 word"
  p_type :: "32 word"

text \<open>
  The globals the two generators read. \<open>parts\<close> holds the requests \<^verbatim>\<open>parts[0]\<close> to
  \<^verbatim>\<open>parts[nr - 1]\<close>, so the argument \<^verbatim>\<open>nr\<close> of the generators is its length.
\<close>

record config =
  active :: "32 word"
  heads :: "32 word"
  sectors :: "32 word"
  kb_align :: "32 word"
  ignore_null_sized_partition :: bool
  parts :: "partinfo list"

text \<open>
  What the program cannot decide: whether \<^verbatim>\<open>open\<close> succeeds, whether the \<open>k\<close>-th call of
  \<^verbatim>\<open>write\<close> writes all its bytes, and the byte found in a local variable that is never
  initialised.
\<close>

record env =
  open_ok :: bool
  write_ok :: "nat \<Rightarrow> bool"
  stack_junk :: byte

datatype fileop =
    FOpen                     \<comment> \<open>\<^verbatim>\<open>open(filename, O_WRONLY|O_CREAT|O_TRUNC)\<close>\<close>
  | FWrite nat "byte list"    \<comment> \<open>a complete \<^verbatim>\<open>write\<close> at a file position\<close>
  | FShort nat                \<comment> \<open>a \<^verbatim>\<open>write\<close> at a position that returned another count\<close>
  | FClose

text \<open>
  A run: the numbers printed on standard output, the operations on the output
  file, and the result (\<open>Inr ()\<close> is the return value 0).
\<close>

record outcome =
  printed :: "int list"
  sink :: "fileop list"
  result :: "error + unit"

subsection \<open>Little-endian fields\<close>

definition le16 :: "16 word \<Rightarrow> byte list" where
  "le16 w = [ucast w, ucast (drop_bit 8 w)]"

definition le32 :: "32 word \<Rightarrow> byte list" where
  "le32 w = [ucast w, ucast (drop_bit 8 w), ucast (drop_bit 16 w), ucast (drop_bit 24 w)]"

definition le64 :: "64 word \<Rightarrow> byte list" where
  "le64 w = [ucast w, ucast (drop_bit 8 w), ucast (drop_bit 16 w), ucast (drop_bit 24 w),
             ucast (drop_bit 32 w), ucast (drop_bit 40 w), ucast (drop_bit 48 w),
             ucast (drop_bit 56 w)]"

text \<open>Reading a little-endian field back from a file.\<close>

fun le_decode :: "byte list \<Rightarrow> 'a::len word" where
  "le_decode [] = 0"
| "le_decode (b # bs) = ucast b OR push_bit 8 (le_decode bs)"

subsection \<open>Sector arithmetic\<close>

text \<open>\<^verbatim>\<open>to_chs(long sect, unsigned char chs[3])\<close>, with \<^verbatim>\<open>int c, h, s\<close>.\<close>

definition to_chs :: "config \<Rightarrow> 64 word \<Rightarrow> error + byte list" where
  "to_chs g sect =
     (if div_traps sect (scast (sectors g)) then Inl ArithFault
      else let s = (ucast (c_mod sect (scast (sectors g)) + 1) :: 32 word);
               sect1 = c_div sect (scast (sectors g))
           in if div_traps sect1 (scast (heads g)) then Inl ArithFault
              else let h = (ucast (c_mod sect1 (scast (heads g))) :: 32 word);
                       sect2 = c_div sect1 (scast (heads g));
                       c = (ucast sect2 :: 32 word)
                   in Inr [ucast h,
                           ucast (s OR (signed_drop_bit 2 c AND 0xC0)),
                           ucast (c AND 0xFF)])"

text \<open>\<^verbatim>\<open>round_to_cyl(long sect)\<close>, with \<^verbatim>\<open>int cyl_size = heads * sectors\<close>.\<close>

definition round_to_cyl :: "config \<Rightarrow> 64 word \<Rightarrow> error + 64 word" where
  "round_to_cyl g sect =
     (let cyl_size = heads g * sectors g
      in if div_traps sect (scast cyl_size) then Inl ArithFault
         else Inr (sect + scast cyl_size - c_mod sect (scast cyl_size)))"

text \<open>\<^verbatim>\<open>round_to_kb(long sect)\<close>; its callers test \<^verbatim>\<open>kb_align != 0\<close> first.\<close>

definition round_to_kb :: "config \<Rightarrow> 64 word \<Rightarrow> error + 64 word" where
  "round_to_kb g sect =
     (if div_traps (sect - 1) (scast (kb_align g)) then Inl ArithFault
      else Inr ((c_div (sect - 1) (scast (kb_align g)) + 1) * scast (kb_align g)))"

subsection \<open>The output file\<close>

text \<open>
  \<^verbatim>\<open>lseek(fd, off, SEEK_SET)\<close>, whose result the program ignores: a negative offset is
  refused and leaves the position where it was.
\<close>

definition lseek :: "nat \<Rightarrow> 64 word \<Rightarrow> nat" where
  "lseek pos off = (if 0 \<le> sint off then unat off else pos)"

text \<open>
  The chain of \<^verbatim>\<open>lseek\<close>, \<^verbatim>\<open>write\<close> and \<^verbatim>\<open>goto fail\<close> of both generators: each step
  seeks and writes one buffer, and the first write that is not complete ends the chain.
  \<open>k\<close> counts the calls of \<^verbatim>\<open>write\<close>, \<open>pos\<close> is the file position.
\<close>

fun write_chain :: "env \<Rightarrow> nat \<Rightarrow> nat \<Rightarrow> (64 word \<times> byte list) list \<Rightarrow> fileop list \<times> bool" where
  "write_chain e k pos [] = ([], True)"
| "write_chain e k pos ((off, buf) # ws) =
     (let p = lseek pos off
      in if write_ok e k
         then (case write_chain e (Suc k) (p + length buf) ws of
                 (ops, ok) \<Rightarrow> (FWrite p buf # ops, ok))
         else ([FShort p], False))"

text \<open>Opening the file, the chain of writes, and \<^verbatim>\<open>close\<close>.\<close>

definition write_file :: "env \<Rightarrow> int list \<Rightarrow> (64 word \<times> byte list) list \<Rightarrow> outcome" where
  "write_file e out ws =
     (if \<not> open_ok e then \<lparr>printed = out, sink = [], result = Inl OpenFailed\<rparr>
      else case write_chain e 0 0 ws of
             (ops, ok) \<Rightarrow>
               \<lparr>printed = out, sink = FOpen # ops @ [FClose],
                result = (if ok then Inr () else Inl WriteFailed)\<rparr>)"

subsection \<open>The legacy partition table\<close>

text \<open>\<^verbatim>\<open>struct pte\<close>, 16 bytes.\<close>

record pte =
  pte_active :: byte
  pte_chs_start :: "byte list"
  pte_type :: byte
  pte_chs_end :: "byte list"
  pte_start :: "32 word"
  pte_length :: "32 word"

definition pte_zero :: pte where
  "pte_zero = \<lparr>pte_active = 0, pte_chs_start = [0, 0, 0], pte_type = 0,
               pte_chs_end = [0, 0, 0], pte_start = 0, pte_length = 0\<rparr>"

definition pte_bytes :: "pte \<Rightarrow> byte list" where
  "pte_bytes p = [pte_active p] @ pte_chs_start p @ [pte_type p] @ pte_chs_end p
                 @ le32 (pte_start p) @ le32 (pte_length p)"

text \<open>
  The state of the loop of \<^verbatim>\<open>gen_ptable\<close>: the table \<^verbatim>\<open>pte[4]\<close>, the cursor \<^verbatim>\<open>sect\<close>
  (\<^verbatim>\<open>unsigned long\<close>) and the lines printed so far.
\<close>

record ptable_state =
  ps_pte :: "pte list"
  ps_sect :: "64 word"
  ps_out :: "int list"

text \<open>
  One pass of the loop body for a request of non-zero size, with \<^verbatim>\<open>int start, len\<close>.
  The table has four entries; writing \<^verbatim>\<open>pte[i]\<close> beyond them is \<open>OutOfBounds\<close>.
\<close>

definition ptable_step :: "config \<Rightarrow> nat \<Rightarrow> partinfo \<Rightarrow> ptable_state \<Rightarrow> error + ptable_state" where
  "ptable_step g i p st =
     (if 4 \<le> i then Inl OutOfBounds
      else
        let start0 = (ucast (ps_sect st + scast (sectors g)) :: 32 word)
        in bind_err (if kb_align g \<noteq> 0 then round_to_kb g (scast start0) else Inr (scast start0))
        (\<lambda>r. let start = (ucast r :: 32 word);
                 sect1 = scast start + p_size p * 2
             in bind_err (if kb_align g = 0 then round_to_cyl g sect1 else Inr sect1)
        (\<lambda>sect2. let len = (ucast (sect2 - scast start) :: 32 word)
             in bind_err (to_chs g (scast start))
        (\<lambda>cs. bind_err (to_chs g (scast (start + len - 1)))
        (\<lambda>ce. Inr \<lparr>ps_pte = (ps_pte st)[i :=
                         \<lparr>pte_active = (if word_of_nat (i + 1) = active g then 0x80 else 0),
                          pte_chs_start = cs,
                          pte_type = ucast (p_type p),
                          pte_chs_end = ce,
                          pte_start = start,
                          pte_length = len\<rparr>],
                      ps_sect = sect2,
                      ps_out = ps_out st @
                        [sint ((scast start :: 64 word) * 512),
                         sint ((scast len :: 64 word) * 512)]\<rparr>)))))"

text \<open>
  The loop \<^verbatim>\<open>for (i = 0; i < nr; i++)\<close> over the requests from index \<open>i\<close> on. An error
  carries the lines printed before it.
\<close>

fun ptable_loop :: "config \<Rightarrow> nat \<Rightarrow> partinfo list \<Rightarrow> ptable_state \<Rightarrow> (error \<times> int list) + ptable_state" where
  "ptable_loop g i [] st = Inr st"
| "ptable_loop g i (p # ps) st =
     (if p_size p = 0
      then (if ignore_null_sized_partition g then ptable_loop g (Suc i) ps st
            else Inl (InvalidSize i, ps_out st))
      else case ptable_step g i p st of
             Inl e \<Rightarrow> Inl (e, ps_out st)
           | Inr st' \<Rightarrow> ptable_loop g (Suc i) ps st')"

definition ptable_init :: ptable_state where
  "ptable_init = \<lparr>ps_pte = replicate 4 pte_zero, ps_sect = 0, ps_out = []\<rparr>"

text \<open>\<^verbatim>\<open>gen_ptable(uint32_t signature, int nr)\<close>.\<close>

definition gen_ptable :: "env \<Rightarrow> config \<Rightarrow> 32 word \<Rightarrow> outcome" where
  "gen_ptable e g signature =
     (case ptable_loop g 0 (parts g) ptable_init of
        Inl (err, out) \<Rightarrow> \<lparr>printed = out, sink = [], result = Inl err\<rparr>
      | Inr st \<Rightarrow>
          write_file e (ps_out st)
            [(440, le32 signature),
             (446, concat (map pte_bytes (ps_pte st))),
             (510, [0x55, 0xAA])])"

subsection \<open>The checksum\<close>

text \<open>
  Modelled from the spec: \<^verbatim>\<open>cyg_crc32_accumulate\<close>, declared in \<^verbatim>\<open>cyg_crc.h\<close>, whose
  source file is not part of the sources at hand. The spec asks for the standard
  reflected CRC-32 with the polynomial \<^verbatim>\<open>0xEDB88320\<close>, "table-driven or bit-wise
  equivalent"; this is the bit-wise one.
\<close>

definition crc32_bit :: "32 word \<Rightarrow> 32 word" where
  "crc32_bit c = (if bit c 0 then drop_bit 1 c XOR 0xEDB88320 else drop_bit 1 c)"

definition crc32_byte :: "32 word \<Rightarrow> byte \<Rightarrow> 32 word" where
  "crc32_byte c b = (crc32_bit ^^ 8) (c XOR ucast b)"

definition cyg_crc32_accumulate :: "32 word \<Rightarrow> byte list \<Rightarrow> 32 word" where
  "cyg_crc32_accumulate crc buf = foldl crc32_byte crc buf"

text \<open>
  \<^verbatim>\<open>gpt_crc32\<close> returns \<^verbatim>\<open>cyg_crc32_accumulate(~0L, buf, len) ^ ~0L\<close> as an
  \<^verbatim>\<open>unsigned long\<close>; both callers store it in a \<^verbatim>\<open>uint32_t\<close> field.
\<close>

definition gpt_crc32 :: "byte list \<Rightarrow> 32 word" where
  "gpt_crc32 buf =
     ucast ((ucast (cyg_crc32_accumulate (ucast (- 1 :: 64 word)) buf) :: 64 word) XOR - 1)"

subsection \<open>GUIDs\<close>

text \<open>\<^verbatim>\<open>guid_t\<close> is an array of 16 bytes, \<^verbatim>\<open>b[16]\<close>.\<close>

type_synonym guid_t = "byte list"

text \<open>
  \<^verbatim>\<open>GUID_INIT\<close>, that is \<^verbatim>\<open>UUID_LE\<close> of \<^verbatim>\<open>linux/uuid.h\<close>: the first three fields byte
  by byte from the low end, then the eight last bytes as given.
\<close>

definition GUID_INIT :: "32 word \<Rightarrow> 16 word \<Rightarrow> 16 word \<Rightarrow> byte list \<Rightarrow> guid_t" where
  "GUID_INIT a b c d = le32 a @ le16 b @ le16 c @ d"

definition GPT_PARTITION_ESP :: guid_t where
  "GPT_PARTITION_ESP =
     GUID_INIT 0xC12A7328 0xF81F 0x11D2 [0xBA, 0x4B, 0x00, 0xA0, 0xC9, 0x3E, 0xC9, 0x3B]"

definition GPT_PARTITION_DATA :: guid_t where
  "GPT_PARTITION_DATA =
     GUID_INIT 0xEBD0A0A2 0xB9E5 0x4433 [0x87, 0xC0, 0x68, 0xB6, 0xB7, 0x26, 0x99, 0xC7]"

definition GPT_PARTITION_BIOS :: guid_t where
  "GPT_PARTITION_BIOS =
     GUID_INIT 0x21686148 0x6449 0x6E6F [0x74, 0x4E, 0x65, 0x65, 0x64, 0x45, 0x46, 0x49]"

subsection \<open>The GUID partition table\<close>

definition GPT_SIGNATURE :: "64 word" where
  "GPT_SIGNATURE = 0x5452415020494645"

definition GPT_REVISION :: "32 word" where
  "GPT_REVISION = 0x00010000"

definition GPT_HEADER_SIZE :: nat where
  "GPT_HEADER_SIZE = 92"

definition GPT_ENTRY_SIZE :: nat where
  "GPT_ENTRY_SIZE = 128"

definition GPT_ENTRY_NUM :: nat where
  "GPT_ENTRY_NUM = 128"

text \<open>
  \<^verbatim>\<open>struct gpth\<close>, packed: its size is \<^verbatim>\<open>GPT_HEADER_SIZE\<close>, the 92 bytes that the checksum
  covers and that are written.
\<close>

record gpth =
  gpth_signature :: "64 word"
  gpth_revision :: "32 word"
  gpth_size :: "32 word"
  gpth_crc32 :: "32 word"
  gpth_reserved :: "32 word"
  gpth_self :: "64 word"
  gpth_alternate :: "64 word"
  gpth_first_usable :: "64 word"
  gpth_last_usable :: "64 word"
  gpth_disk_guid :: guid_t
  gpth_first_entry :: "64 word"
  gpth_entry_num :: "32 word"
  gpth_entry_size :: "32 word"
  gpth_entry_crc32 :: "32 word"

definition gpth_bytes :: "gpth \<Rightarrow> byte list" where
  "gpth_bytes h =
     le64 (gpth_signature h) @ le32 (gpth_revision h) @ le32 (gpth_size h)
     @ le32 (gpth_crc32 h) @ le32 (gpth_reserved h) @ le64 (gpth_self h)
     @ le64 (gpth_alternate h) @ le64 (gpth_first_usable h) @ le64 (gpth_last_usable h)
     @ gpth_disk_guid h @ le64 (gpth_first_entry h) @ le32 (gpth_entry_num h)
     @ le32 (gpth_entry_size h) @ le32 (gpth_entry_crc32 h)"

text \<open>\<^verbatim>\<open>struct gpte\<close>, packed, 128 bytes; the name is 36 UTF-16 units.\<close>

record gpte =
  gpte_type :: guid_t
  gpte_guid :: guid_t
  gpte_start :: "64 word"
  gpte_end :: "64 word"
  gpte_attr :: "64 word"
  gpte_name :: "16 word list"

definition gpte_zero :: gpte where
  "gpte_zero = \<lparr>gpte_type = replicate 16 0, gpte_guid = replicate 16 0, gpte_start = 0,
                gpte_end = 0, gpte_attr = 0, gpte_name = replicate 36 0\<rparr>"

definition gpte_bytes :: "gpte \<Rightarrow> byte list" where
  "gpte_bytes x =
     gpte_type x @ gpte_guid x @ le64 (gpte_start x) @ le64 (gpte_end x)
     @ le64 (gpte_attr x) @ concat (map le16 (gpte_name x))"

text \<open>
  The state of the loop of \<^verbatim>\<open>gen_gptable\<close>: the array \<^verbatim>\<open>gpte[GPT_ENTRY_NUM]\<close>, the
  cursor \<^verbatim>\<open>sect\<close> (\<^verbatim>\<open>unsigned long long\<close>) and the lines printed so far.
\<close>

record gptable_state =
  gs_gpte :: "gpte list"
  gs_sect :: "64 word"
  gs_out :: "int list"

text \<open>
  One pass of the loop body for a request of non-zero size, with
  \<^verbatim>\<open>unsigned long long start\<close>. \<^verbatim>\<open>gpte[i].guid.b[15] += i + 1\<close> is an addition on a byte.
\<close>

definition gptable_step :: "config \<Rightarrow> guid_t \<Rightarrow> nat \<Rightarrow> partinfo \<Rightarrow> gptable_state \<Rightarrow> error + gptable_state" where
  "gptable_step g guid i p st =
     (if GPT_ENTRY_NUM \<le> i then Inl OutOfBounds
      else
        let start0 = gs_sect st + scast (sectors g)
        in bind_err (if kb_align g \<noteq> 0 then round_to_kb g start0 else Inr start0)
        (\<lambda>start. let sect1 = start + p_size p * 2
             in bind_err (if kb_align g = 0 then round_to_cyl g sect1 else Inr sect1)
        (\<lambda>sect2. Inr \<lparr>gs_gpte = (gs_gpte st)[i := (gs_gpte st ! i)
                         \<lparr>gpte_start := start,
                          gpte_end := sect2 - 1,
                          gpte_guid := guid[15 := guid ! 15 + word_of_nat (i + 1)],
                          gpte_type := (if p_type p = 0xEF \<or> word_of_nat (i + 1) = active g
                                        then GPT_PARTITION_ESP else GPT_PARTITION_DATA)\<rparr>],
                      gs_sect = sect2,
                      gs_out = gs_out st @
                        [sint (start * 512), sint ((sect2 - start) * 512)]\<rparr>)))"

fun gptable_loop :: "config \<Rightarrow> guid_t \<Rightarrow> nat \<Rightarrow> partinfo list \<Rightarrow> gptable_state \<Rightarrow> (error \<times> int list) + gptable_state" where
  "gptable_loop g guid i [] st = Inr st"
| "gptable_loop g guid i (p # ps) st =
     (if p_size p = 0
      then (if ignore_null_sized_partition g then gptable_loop g guid (Suc i) ps st
            else Inl (InvalidSize i, gs_out st))
      else case gptable_step g guid i p st of
             Inl e \<Rightarrow> Inl (e, gs_out st)
           | Inr st' \<Rightarrow> gptable_loop g guid (Suc i) ps st')"

definition gptable_init :: gptable_state where
  "gptable_init = \<lparr>gs_gpte = replicate GPT_ENTRY_NUM gpte_zero, gs_sect = 0, gs_out = []\<rparr>"

text \<open>
  The last entry, written after the loop: \<^verbatim>\<open>gpte[GPT_ENTRY_NUM - 1]\<close> from sector
  \<^verbatim>\<open>GPT_ENTRY_SIZE * GPT_ENTRY_NUM / 512 + 2\<close> to
  \<^verbatim>\<open>(kb_align ? round_to_kb(sectors) : sectors) - 1\<close>.
\<close>

definition bios_entry :: "config \<Rightarrow> guid_t \<Rightarrow> gpte \<Rightarrow> error + gpte" where
  "bios_entry g guid x =
     bind_err (if kb_align g \<noteq> 0 then round_to_kb g (scast (sectors g))
               else Inr (scast (sectors g)))
     (\<lambda>r. Inr (x\<lparr>gpte_start := word_of_nat (GPT_ENTRY_SIZE * GPT_ENTRY_NUM div 512 + 2),
                gpte_end := r - 1,
                gpte_type := GPT_PARTITION_BIOS,
                gpte_guid := guid[15 := guid ! 15 + word_of_nat GPT_ENTRY_NUM]\<rparr>))"

text \<open>The initialiser of \<^verbatim>\<open>struct gpth gpth\<close>; the fields it does not name are zero.\<close>

definition gpth_init :: "guid_t \<Rightarrow> gpth" where
  "gpth_init guid =
     \<lparr>gpth_signature = GPT_SIGNATURE, gpth_revision = GPT_REVISION,
      gpth_size = word_of_nat GPT_HEADER_SIZE, gpth_crc32 = 0, gpth_reserved = 0,
      gpth_self = 1, gpth_alternate = 0,
      gpth_first_usable = word_of_nat (GPT_ENTRY_SIZE * GPT_ENTRY_NUM div 512 + 2),
      gpth_last_usable = 0, gpth_disk_guid = guid, gpth_first_entry = 2,
      gpth_entry_num = word_of_nat GPT_ENTRY_NUM,
      gpth_entry_size = word_of_nat GPT_ENTRY_SIZE, gpth_entry_crc32 = 0\<rparr>"

text \<open>
  The header of the first table: \<^verbatim>\<open>last_usable\<close>, \<^verbatim>\<open>alternate\<close>, then the checksum of
  the entries and last the checksum of the header, taken while \<^verbatim>\<open>crc32\<close> still holds
  the zero of the initialiser.
\<close>

definition primary_header :: "guid_t \<Rightarrow> 64 word \<Rightarrow> byte list \<Rightarrow> gpth" where
  "primary_header guid end_lba entries =
     (let h1 = (gpth_init guid)
                 \<lparr>gpth_last_usable :=
                    end_lba - word_of_nat (GPT_ENTRY_SIZE * GPT_ENTRY_NUM div 512) - 1,
                  gpth_alternate := end_lba,
                  gpth_entry_crc32 := gpt_crc32 entries\<rparr>
      in h1\<lparr>gpth_crc32 := gpt_crc32 (gpth_bytes h1)\<rparr>)"

text \<open>
  The header of the second table: \<^verbatim>\<open>self\<close> and \<^verbatim>\<open>alternate\<close> exchanged, a new
  \<^verbatim>\<open>first_entry\<close>, \<^verbatim>\<open>crc32 = 0\<close> and the checksum again.
\<close>

definition backup_header :: "gpth \<Rightarrow> 64 word \<Rightarrow> gpth" where
  "backup_header h end_lba =
     (let h1 = h\<lparr>gpth_self := gpth_alternate h,
                 gpth_alternate := gpth_self h,
                 gpth_first_entry :=
                   end_lba - word_of_nat (GPT_ENTRY_SIZE * GPT_ENTRY_NUM div 512),
                 gpth_crc32 := 0\<rparr>
      in h1\<lparr>gpth_crc32 := gpt_crc32 (gpth_bytes h1)\<rparr>)"

text \<open>
  The entry of the protective table. \<^verbatim>\<open>struct pte pte\<close> is a local variable without
  initialiser and \<^verbatim>\<open>active\<close> is never assigned, so that byte is whatever the stack held.
\<close>

definition protective_pte :: "env \<Rightarrow> config \<Rightarrow> 64 word \<Rightarrow> error + pte" where
  "protective_pte e g end_lba =
     bind_err (to_chs g 1)
     (\<lambda>cs. bind_err (to_chs g end_lba)
     (\<lambda>ce. Inr \<lparr>pte_active = stack_junk e, pte_chs_start = cs, pte_type = 0xEE,
                pte_chs_end = ce, pte_start = 1, pte_length = ucast end_lba\<rparr>))"

text \<open>\<^verbatim>\<open>gen_gptable(uint32_t signature, guid_t guid, int nr)\<close>.\<close>

definition gen_gptable :: "env \<Rightarrow> config \<Rightarrow> 32 word \<Rightarrow> guid_t \<Rightarrow> outcome" where
  "gen_gptable e g signature guid =
     (case gptable_loop g guid 0 (parts g) gptable_init of
        Inl (err, out) \<Rightarrow> \<lparr>printed = out, sink = [], result = Inl err\<rparr>
      | Inr st \<Rightarrow>
          (case bind_err (bios_entry g guid (gs_gpte st ! (GPT_ENTRY_NUM - 1)))
                  (\<lambda>bios. bind_err (protective_pte e g (gs_sect st + scast (sectors g) - 1))
                  (\<lambda>mbr. Inr (bios, mbr))) of
             Inl err \<Rightarrow> \<lparr>printed = gs_out st, sink = [], result = Inl err\<rparr>
           | Inr (bios, mbr) \<Rightarrow>
               (let end_lba = gs_sect st + scast (sectors g) - 1;
                    entries = concat (map gpte_bytes ((gs_gpte st)[GPT_ENTRY_NUM - 1 := bios]));
                    h = primary_header guid end_lba entries
                in write_file e (gs_out st)
                     [(440, le32 signature),
                      (446, pte_bytes mbr),
                      (510, [0x55, 0xAA]),
                      (512, gpth_bytes h),
                      (1024, entries),
                      (end_lba * 512 - word_of_nat (GPT_ENTRY_SIZE * GPT_ENTRY_NUM), entries),
                      (end_lba * 512, gpth_bytes (backup_header h end_lba)),
                      (end_lba * 512 + 511, [0])])))"

subsection \<open>Parsing and printing a GUID\<close>

text \<open>
  The C library on characters: \<^verbatim>\<open>isspace\<close> and \<^verbatim>\<open>toupper\<close> in the C locale, and the value
  of a hexadecimal digit.
\<close>

definition isspace :: "char \<Rightarrow> bool" where
  "isspace c = (of_char c = (32::nat) \<or> (9 \<le> (of_char c :: nat) \<and> (of_char c :: nat) \<le> 13))"

definition toupper :: "char \<Rightarrow> char" where
  "toupper c = (if 97 \<le> (of_char c :: nat) \<and> (of_char c :: nat) \<le> 122
                then char_of ((of_char c :: nat) - 32) else c)"

definition hexval :: "char \<Rightarrow> nat option" where
  "hexval c =
     (let n = (of_char c :: nat)
      in if 48 \<le> n \<and> n \<le> 57 then Some (n - 48)
         else if 65 \<le> n \<and> n \<le> 70 then Some (n - 55)
         else if 97 \<le> n \<and> n \<le> 102 then Some (n - 87)
         else None)"

definition isxdigit :: "char \<Rightarrow> bool" where
  "isxdigit c = (hexval c \<noteq> None)"

text \<open>
  \<^verbatim>\<open>strtol(b, 0, 16)\<close> on the characters of \<^verbatim>\<open>b\<close> before its terminator: white space, an
  optional sign, an optional \<^verbatim>\<open>0x\<close> in front of a digit, then digits up to the first
  character that is none. \<^verbatim>\<open>guid_parse\<close> passes at most two characters, so the value
  never reaches the bounds of \<^verbatim>\<open>long\<close>, where \<^verbatim>\<open>strtol\<close> would saturate.
\<close>

fun hex_digits :: "int \<Rightarrow> string \<Rightarrow> int" where
  "hex_digits acc [] = acc"
| "hex_digits acc (c # cs) =
     (case hexval c of None \<Rightarrow> acc | Some d \<Rightarrow> hex_digits (acc * 16 + int d) cs)"

definition has_0x_prefix :: "string \<Rightarrow> bool" where
  "has_0x_prefix s =
     (case s of
        a # b # c # r \<Rightarrow> a = CHR ''0'' \<and> (b = CHR ''x'' \<or> b = CHR ''X'') \<and> isxdigit c
      | _ \<Rightarrow> False)"

definition strtol16 :: "string \<Rightarrow> int" where
  "strtol16 s =
     (let s1 = dropWhile isspace s;
          neg = (s1 \<noteq> [] \<and> hd s1 = CHR ''-'');
          s2 = (if s1 \<noteq> [] \<and> (hd s1 = CHR ''-'' \<or> hd s1 = CHR ''+'') then tl s1 else s1);
          s3 = (if has_0x_prefix s2 then drop 2 s2 else s2);
          v = hex_digits 0 s3
      in if neg then - v else v)"

text \<open>
  The loop of \<^verbatim>\<open>guid_parse\<close> with \<open>n\<close> bytes left to read. \<^verbatim>\<open>p\<close> is \<open>Some cs\<close> when it
  points into the string, \<open>cs\<close> being the characters from \<^verbatim>\<open>p\<close> to the terminator, and
  \<open>None\<close> once \<^verbatim>\<open>p += 2\<close> has stepped over the terminator, where reading \<^verbatim>\<open>*p\<close> leaves
  the string. \<^verbatim>\<open>memcpy(b, p, 2)\<close> copies a character and its successor, which may be the
  terminator; \<^verbatim>\<open>guid->b[i]\<close> keeps the low byte of what \<^verbatim>\<open>strtol\<close> returns.
\<close>

fun guid_parse_loop :: "nat \<Rightarrow> string option \<Rightarrow> error + byte list" where
  "guid_parse_loop 0 p = Inr []"
| "guid_parse_loop (Suc n) None = Inl OutOfBounds"
| "guid_parse_loop (Suc n) (Some cs) =
     (let cs1 = (case cs of [] \<Rightarrow> cs | c # r \<Rightarrow> if c = CHR ''-'' then r else cs)
      in case cs1 of
           [] \<Rightarrow> Inl InvalidGuid
         | c # r \<Rightarrow>
             bind_err (guid_parse_loop n (case r of [] \<Rightarrow> None | d # r' \<Rightarrow> Some r'))
               (\<lambda>bs. Inr (word_of_int (strtol16 (take 2 cs1)) # bs)))"

text \<open>A C string: the characters before the first NUL.\<close>

definition c_str :: "string \<Rightarrow> string" where
  "c_str buf = takeWhile (\<lambda>c. c \<noteq> CHR 0x00) buf"

text \<open>
  \<^verbatim>\<open>guid_parse(char *buf, guid_t *guid)\<close>: \<open>Inl InvalidGuid\<close> is the return value -1. The
  three \<^verbatim>\<open>__bswap\<close> assignments reverse the bytes 0 to 3, 4 to 5 and 6 to 7 in place.
\<close>

definition guid_parse :: "string \<Rightarrow> error + guid_t" where
  "guid_parse buf =
     (if min (length (c_str buf)) 36 \<noteq> 36 then Inl InvalidGuid
      else bind_err (guid_parse_loop 16 (Some (c_str buf)))
             (\<lambda>b. Inr (rev (take 4 b) @ rev (take 2 (drop 4 b)) @ rev (take 2 (drop 6 b))
                        @ drop 8 b)))"

text \<open>\<^verbatim>\<open>%02X\<close> of a byte, and the line that \<^verbatim>\<open>guid_print\<close> prints.\<close>

definition hex_digit :: "nat \<Rightarrow> char" where
  "hex_digit n = (if n < 10 then char_of (48 + n) else char_of (55 + n))"

definition hex02X :: "byte \<Rightarrow> string" where
  "hex02X b = [hex_digit (unat b div 16), hex_digit (unat b mod 16)]"

definition guid_print :: "guid_t \<Rightarrow> string" where
  "guid_print g =
     hex02X (g ! 3) @ hex02X (g ! 2) @ hex02X (g ! 1) @ hex02X (g ! 0) @ ''-''
     @ hex02X (g ! 5) @ hex02X (g ! 4) @ ''-''
     @ hex02X (g ! 7) @ hex02X (g ! 6) @ ''-''
     @ hex02X (g ! 8) @ hex02X (g ! 9) @ ''-''
     @ hex02X (g ! 10) @ hex02X (g ! 11) @ hex02X (g ! 12) @ hex02X (g ! 13)
     @ hex02X (g ! 14) @ hex02X (g ! 15) @ [CHR 0x0A]"

subsection \<open>The command line\<close>

text \<open>
  The options as \<^verbatim>\<open>getopt\<close> returns them. A numeric option carries the value that
  \<^verbatim>\<open>strtoul\<close> returned for its argument, \<open>Opt_p\<close> the size in KiB that \<^verbatim>\<open>to_kbytes\<close>
  returned; \<open>Opt_unknown\<close> is the case \<^verbatim>\<open>'?'\<close>.
\<close>

datatype opt =
    Opt_o string
  | Opt_v
  | Opt_n
  | Opt_g
  | Opt_h "64 word"
  | Opt_s "64 word"
  | Opt_p "64 word"
  | Opt_t "64 word"
  | Opt_a "64 word"
  | Opt_l "64 word"
  | Opt_S "64 word"
  | Opt_G string
  | Opt_unknown

text \<open>
  The globals and the locals of \<^verbatim>\<open>main\<close>. The counter \<^verbatim>\<open>part\<close> is the number of requests
  stored, the length of \<open>parts\<close>.
\<close>

record main_state =
  ms_config :: config
  ms_verbose :: "32 word"
  ms_use_guid_partition_table :: bool
  ms_filename :: "string option"
  ms_type :: byte
  ms_signature :: "32 word"
  ms_guid :: guid_t

definition main_init :: main_state where
  "main_init =
     \<lparr>ms_config = \<lparr>active = 1, heads = - 1, sectors = - 1, kb_align = 0,
                    ignore_null_sized_partition = False, parts = []\<rparr>,
      ms_verbose = 0,
      ms_use_guid_partition_table = False,
      ms_filename = None,
      ms_type = 0x83,
      ms_signature = 0x5452574F,
      ms_guid = GUID_INIT 0x5452574F 0x2211 0x4433 [0x55, 0x66, 0x77, 0x88, 0x99, 0xAA, 0xBB, 0x00]\<rparr>"

text \<open>One pass of the \<^verbatim>\<open>switch\<close> in the option loop.\<close>

fun handle_opt :: "main_state \<Rightarrow> opt \<Rightarrow> error + main_state" where
  "handle_opt m (Opt_o f) = Inr (m\<lparr>ms_filename := Some f\<rparr>)"
| "handle_opt m Opt_v = Inr (m\<lparr>ms_verbose := ms_verbose m + 1\<rparr>)"
| "handle_opt m Opt_n =
     Inr (m\<lparr>ms_config := (ms_config m)\<lparr>ignore_null_sized_partition := True\<rparr>\<rparr>)"
| "handle_opt m Opt_g = Inr (m\<lparr>ms_use_guid_partition_table := True\<rparr>)"
| "handle_opt m (Opt_h v) = Inr (m\<lparr>ms_config := (ms_config m)\<lparr>heads := ucast v\<rparr>\<rparr>)"
| "handle_opt m (Opt_s v) = Inr (m\<lparr>ms_config := (ms_config m)\<lparr>sectors := ucast v\<rparr>\<rparr>)"
| "handle_opt m (Opt_p kb) =
     (if length (parts (ms_config m)) > GPT_ENTRY_NUM - 1
         \<or> (ms_use_guid_partition_table m = False \<and> length (parts (ms_config m)) > 3)
      then Inl TooManyPartitions
      else Inr (m\<lparr>ms_config := (ms_config m)
                  \<lparr>parts := parts (ms_config m) @ [\<lparr>p_size = kb, p_type = ucast (ms_type m)\<rparr>]\<rparr>\<rparr>))"
| "handle_opt m (Opt_t v) = Inr (m\<lparr>ms_type := ucast v\<rparr>)"
| "handle_opt m (Opt_a v) =
     (let a = (ucast v :: 32 word)
      in Inr (m\<lparr>ms_config := (ms_config m)
                 \<lparr>active := (if sint a < 0 \<or> sint a > 4 then 0 else a)\<rparr>\<rparr>))"
| "handle_opt m (Opt_l v) =
     Inr (m\<lparr>ms_config := (ms_config m)\<lparr>kb_align := (ucast v :: 32 word) * 2\<rparr>\<rparr>)"
| "handle_opt m (Opt_S v) = Inr (m\<lparr>ms_signature := ucast v\<rparr>)"
| "handle_opt m (Opt_G s) =
     (case guid_parse s of
        Inl OutOfBounds \<Rightarrow> Inl OutOfBounds
      | Inl e \<Rightarrow> Inl InvalidGuid
      | Inr guid \<Rightarrow> Inr (m\<lparr>ms_guid := guid\<rparr>))"
| "handle_opt m Opt_unknown = Inl Usage"

text \<open>The loop \<^verbatim>\<open>while ((ch = getopt(...)) != -1)\<close>: the first failing option exits.\<close>

fun handle_opts :: "main_state \<Rightarrow> opt list \<Rightarrow> error + main_state" where
  "handle_opts m [] = Inr m"
| "handle_opts m (x # xs) = bind_err (handle_opt m x) (\<lambda>m'. handle_opts m' xs)"

text \<open>
  \<^verbatim>\<open>main\<close>: \<open>rest\<close> is the number of arguments left after the options
  (\<^verbatim>\<open>argc -= optind\<close>). An error before the generators prints nothing on standard output
  and leaves the file alone.
\<close>

definition main :: "env \<Rightarrow> opt list \<Rightarrow> nat \<Rightarrow> outcome" where
  "main e opts rest =
     (case handle_opts main_init opts of
        Inl err \<Rightarrow> \<lparr>printed = [], sink = [], result = Inl err\<rparr>
      | Inr m \<Rightarrow>
          if rest \<noteq> 0 \<or> sint (heads (ms_config m)) \<le> 0 \<or> sint (sectors (ms_config m)) \<le> 0
             \<or> ms_filename m = None
          then \<lparr>printed = [], sink = [], result = Inl Usage\<rparr>
          else if ms_use_guid_partition_table m
               then gen_gptable e (ms_config m) (ms_signature m) (ms_guid m)
               else gen_ptable e (ms_config m) (ms_signature m))"

subsection \<open>Observations used in the statements\<close>

text \<open>The complete writes of a run, in order, each with its file position.\<close>

fun written :: "fileop list \<Rightarrow> (nat \<times> byte list) list" where
  "written [] = []"
| "written (FWrite p buf # ops) = (p, buf) # written ops"
| "written (FOpen # ops) = written ops"
| "written (FShort p # ops) = written ops"
| "written (FClose # ops) = written ops"

text \<open>An environment in which the file opens and every write is complete.\<close>

definition good_env :: env where
  "good_env = \<lparr>open_ok = True, write_ok = (\<lambda>k. True), stack_junk = 0\<rparr>"

text \<open>
  The canonical text of a GUID: 36 characters, hyphens at the positions 8, 13, 18 and
  23, hexadecimal digits everywhere else.
\<close>

definition canonical_guid :: "string \<Rightarrow> bool" where
  "canonical_guid s =
     list_all2 (\<lambda>p c. if p = CHR ''-'' then c = CHR ''-'' else isxdigit c)
       ''xxxxxxxx-xxxx-xxxx-xxxx-xxxxxxxxxxxx'' s"

text \<open>The byte that two hexadecimal digits denote.\<close>

definition hex_pair :: "char \<Rightarrow> char \<Rightarrow> byte" where
  "hex_pair a b = word_of_nat (16 * the (hexval a) + the (hexval b))"

text \<open>
  The on-disk form of a canonical text: the bytes of the first group in reverse order,
  those of the second and of the third group in reverse order, the last eight bytes in
  the order of the text. The numbers are the positions of the first digit of each byte.
\<close>

definition on_disk_guid :: "string \<Rightarrow> guid_t" where
  "on_disk_guid s =
     map (\<lambda>k. hex_pair (s ! k) (s ! Suc k))
       [6, 4, 2, 0, 11, 9, 16, 14, 19, 21, 24, 26, 28, 30, 32, 34]"

text \<open>
  The buffers of a run, by the place of their write among the complete writes:
  \<^verbatim>\<open>gen_ptable\<close> writes the signature, the table and the boot signature;
  \<^verbatim>\<open>gen_gptable\<close> writes the signature, the protective entry, the boot signature, the
  header, the entries, the copy of the entries, the second header and a last byte.
\<close>

definition nth_write :: "outcome \<Rightarrow> nat \<Rightarrow> nat \<times> byte list" where
  "nth_write r k = written (sink r) ! k"

definition mbr_table :: "outcome \<Rightarrow> byte list" where
  "mbr_table r = snd (nth_write r 1)"

definition gpt_header :: "outcome \<Rightarrow> byte list" where
  "gpt_header r = snd (nth_write r 3)"

definition gpt_entries :: "outcome \<Rightarrow> byte list" where
  "gpt_entries r = snd (nth_write r 4)"

definition gpt_backup_entries :: "outcome \<Rightarrow> byte list" where
  "gpt_backup_entries r = snd (nth_write r 5)"

definition gpt_backup_header :: "outcome \<Rightarrow> byte list" where
  "gpt_backup_header r = snd (nth_write r 6)"

text \<open>The \<open>k\<close>-th record of \<open>n\<close> bytes in a buffer.\<close>

definition slot :: "nat \<Rightarrow> nat \<Rightarrow> byte list \<Rightarrow> byte list" where
  "slot n k buf = take n (drop (k * n) buf)"







text \<open>The fields of an entry of 128 bytes: type, GUID, first and last sector.\<close>

definition entry_type :: "byte list \<Rightarrow> byte list" where
  "entry_type x = take 16 x"

definition entry_guid :: "byte list \<Rightarrow> byte list" where
  "entry_guid x = take 16 (drop 16 x)"

definition entry_start_lba :: "byte list \<Rightarrow> 64 word" where
  "entry_start_lba x = le_decode (take 8 (drop 32 x))"

definition entry_end_lba :: "byte list \<Rightarrow> 64 word" where
  "entry_end_lba x = le_decode (take 8 (drop 40 x))"

text \<open>Arrays of the declared sizes inside the two structures.\<close>

definition pte_wf :: "pte \<Rightarrow> bool" where
  "pte_wf x = (length (pte_chs_start x) = 3 \<and> length (pte_chs_end x) = 3)"

definition gpte_wf :: "gpte \<Rightarrow> bool" where
  "gpte_wf x = (length (gpte_type x) = 16 \<and> length (gpte_guid x) = 16 \<and> length (gpte_name x) = 36)"

text \<open>
  Two command lines for the examples: \<^verbatim>\<open>-n -h 16 -s 63 -p 1024 -p 0 -p 2048\<close>, and
  \<^verbatim>\<open>-n -h 16 -s 63\<close> with \<^verbatim>\<open>-p 0\<close> 128 times.
\<close>

definition example_config :: config where
  "example_config =
     \<lparr>active = 1, heads = 16, sectors = 63, kb_align = 0, ignore_null_sized_partition = True,
      parts = [\<lparr>p_size = 1024, p_type = 0x83\<rparr>, \<lparr>p_size = 0, p_type = 0x83\<rparr>,
               \<lparr>p_size = 2048, p_type = 0x83\<rparr>]\<rparr>"


text \<open>
  A geometry with which no division of the generators traps: heads, sectors and the
  cylinder size \<^verbatim>\<open>heads * sectors\<close> are positive as \<^verbatim>\<open>int\<close>s, and the alignment is not
  negative.
\<close>

definition valid_geometry :: "config \<Rightarrow> bool" where
  "valid_geometry g =
     (0 < sint (heads g) \<and> 0 < sint (sectors g) \<and> 0 < sint (heads g * sectors g)
      \<and> 0 \<le> sint (kb_align g))"

text \<open>
  More command lines for the examples: \<^verbatim>\<open>-h 16 -s 63 -p 1024 -p 0 -p 2048\<close> without
  \<^verbatim>\<open>-n\<close>, and \<^verbatim>\<open>-g -o img -h 16 -s 63\<close> followed by \<^verbatim>\<open>-p 1\<close> 128 times, with the
  globals that \<^verbatim>\<open>main\<close> has set after it.
\<close>

definition no_skip_config :: config where
  "no_skip_config = example_config\<lparr>ignore_null_sized_partition := False\<rparr>"

definition many_parts_opts :: "opt list" where
  "many_parts_opts = [Opt_g, Opt_o ''img'', Opt_h 16, Opt_s 63] @ replicate 128 (Opt_p 1)"

definition many_parts_config :: config where
  "many_parts_config =
     example_config\<lparr>ignore_null_sized_partition := False,
                    parts := replicate 128 \<lparr>p_size = 1, p_type = 0x83\<rparr>\<rparr>"

subsection \<open>The plan that a run prints\<close>

text \<open>
  Each retained request prints two lines, the offset of its partition and its length, both
  in bytes. \<open>lines_plan\<close> reads the lines back as pairs, and \<open>non_overlapping\<close> says of
  such a plan that the offsets increase strictly and that no partition starts before
  the end of the one before it.
\<close>

fun lines_plan :: "int list \<Rightarrow> (int \<times> int) list" where
  "lines_plan (a # b # r) = (a, b) # lines_plan r"
| "lines_plan _ = []"

fun non_overlapping :: "(int \<times> int) list \<Rightarrow> bool" where
  "non_overlapping ((s, l) # (s', l') # r) =
     (s < s' \<and> s + l \<le> s' \<and> non_overlapping ((s', l') # r))"
| "non_overlapping _ = True"

text \<open>
  A plan whose partitions all lie behind the offset \<open>lo\<close>, each behind the end of the one
  before it, and none of negative length.
\<close>

fun chained :: "int \<Rightarrow> (int \<times> int) list \<Rightarrow> bool" where
  "chained lo [] = True"
| "chained lo ((s, l) # r) = (lo < s \<and> 0 \<le> l \<and> chained (s + l) r)"

text \<open>
  The arithmetic of one pass of the loop on unbounded integers: the start of the partition
  from the cursor \<open>s\<close>, and the new cursor from the start \<open>a\<close> and the size \<open>z\<close> in KiB.
\<close>

definition aligned_start :: "config \<Rightarrow> int \<Rightarrow> int" where
  "aligned_start g s =
     (if sint (kb_align g) \<noteq> 0
      then ((s + sint (sectors g) - 1) div sint (kb_align g) + 1) * sint (kb_align g)
      else s + sint (sectors g))"

definition aligned_end :: "config \<Rightarrow> int \<Rightarrow> int \<Rightarrow> int" where
  "aligned_end g a z =
     (if sint (kb_align g) = 0
      then a + 2 * z + sint (heads g) * sint (sectors g)
             - (a + 2 * z) mod (sint (heads g) * sint (sectors g))
      else a + 2 * z)"

text \<open>
  The number of sectors that a request can move the cursor by at most, and the sum over the
  requests of a run.
\<close>

definition request_demand :: "config \<Rightarrow> partinfo \<Rightarrow> int" where
  "request_demand g p =
     sint (sectors g) + sint (kb_align g) + 2 * uint (p_size p) + sint (heads g) * sint (sectors g)"

definition demand :: "config \<Rightarrow> partinfo list \<Rightarrow> int" where
  "demand g ps = sum_list (map (request_demand g) ps)"

text \<open>What a loop has printed, whether it ended with an error or not.\<close>

definition ptable_lines :: "(error \<times> int list) + ptable_state \<Rightarrow> int list" where
  "ptable_lines r = (case r of Inl (err, out) \<Rightarrow> out | Inr st \<Rightarrow> ps_out st)"

definition gptable_lines :: "(error \<times> int list) + gptable_state \<Rightarrow> int list" where
  "gptable_lines r = (case r of Inl (err, out) \<Rightarrow> out | Inr st \<Rightarrow> gs_out st)"

text \<open>A geometry and two requests whose sizes add up beyond the range of \<^verbatim>\<open>int\<close>.\<close>

definition overflow_config :: config where
  "overflow_config =
     \<lparr>active = 1, heads = 4, sectors = 32, kb_align = 0, ignore_null_sized_partition = False,
      parts = [\<lparr>p_size = 0x7FFFFFC0, p_type = 0x83\<rparr>, \<lparr>p_size = 1, p_type = 0x83\<rparr>]\<rparr>"

text \<open>The start sector of an entry of the legacy table, read back from its 16 bytes.\<close>

definition pte_entry_start :: "byte list \<Rightarrow> 32 word" where
  "pte_entry_start buf = le_decode (take 4 (drop 8 buf))"

section \<open>The legacy example of the spec\<close>

lemma legacy_example_lines:
  "printed (gen_ptable e \<lparr>active = a, heads = 4, sectors = 32, kb_align = 0,
                          ignore_null_sized_partition = n,
                          parts = [\<lparr>p_size = 64, p_type = t\<rparr>]\<rparr> sg)
   = [16384, 114688]"
  apply (simp add: gen_ptable_def ptable_init_def ptable_step_def bind_err_def round_to_cyl_def
      div_traps_def c_mod_def signed_modulo_int_def)
  apply (simp add: to_chs_def div_traps_def c_mod_def c_div_def signed_modulo_int_def
      signed_divide_int_def write_file_def split: prod.splits)
  done

text \<open>
  C1, as the spec states it: with 4 heads, 32 sectors per track, cylinder alignment and
  one request of 64 KiB the two lines printed are 16384 and 65536. The run prints
  another length, so the statement fails.
\<close>

theorem legacy_example_length_not_65536:
  "printed (gen_ptable good_env \<lparr>active = 1, heads = 4, sectors = 32, kb_align = 0,
                                 ignore_null_sized_partition = False,
                                 parts = [\<lparr>p_size = 64, p_type = 0x83\<rparr>]\<rparr> 0x5452574F)
   \<noteq> [16384, 65536]"
  by (simp add: legacy_example_lines)

text \<open>
  C1, amended: the start printed is 16384 (sector 32) and the length printed is 114688,
  that is 224 sectors: the end of the request, sector 32 + 128 = 160, is rounded up to
  the cylinder boundary 256, and the length is 256 - 32. This holds whatever the active
  slot, the type, the signature and the environment are.
\<close>

theorem legacy_example_offsets:
  "printed (gen_ptable e \<lparr>active = a, heads = 4, sectors = 32, kb_align = 0,
                          ignore_null_sized_partition = n,
                          parts = [\<lparr>p_size = 64, p_type = t\<rparr>]\<rparr> sg)
   = [32 * 512, (256 - 32) * 512]"
  by (simp add: legacy_example_lines)

theorem legacy_example_offsets_witness:
  "printed (gen_ptable good_env \<lparr>active = 1, heads = 4, sectors = 32, kb_align = 0,
                                 ignore_null_sized_partition = False,
                                 parts = [\<lparr>p_size = 64, p_type = 0x83\<rparr>]\<rparr> 0x5452574F)
   = [16384, 114688]"
  using legacy_example_offsets [of good_env 1 False "0x83" "0x5452574F"] by simp

section \<open>Parsing and printing a GUID\<close>

lemma hexval_cases:
  "isxdigit c \<Longrightarrow> \<exists>x. hexval c = Some x \<and> x < 16"
  by (auto simp: isxdigit_def hexval_def Let_def split: if_splits)

lemma isxdigit_not_special:
  "isxdigit c \<Longrightarrow> c \<noteq> CHR ''-'' \<and> c \<noteq> CHR ''+'' \<and> c \<noteq> CHR 0x00 \<and> \<not> isspace c"
  by (auto simp: isxdigit_def hexval_def isspace_def Let_def split: if_splits)

lemma strtol16_pair:
  assumes "isxdigit a" "isxdigit b"
  shows "strtol16 [a, b] = int (16 * the (hexval a) + the (hexval b))"
proof -
  from assms obtain x y where x: "hexval a = Some x" and y: "hexval b = Some y"
    using hexval_cases by blast
  from assms isxdigit_not_special[of a] have na: "a \<noteq> CHR ''-''" "a \<noteq> CHR ''+''" "\<not> isspace a"
    by auto
  show ?thesis
    by (simp add: strtol16_def Let_def na has_0x_prefix_def x y)
qed

lemma strtol16_hex_pair:
  "isxdigit a \<Longrightarrow> isxdigit b \<Longrightarrow> (word_of_int (strtol16 [a, b]) :: byte) = hex_pair a b"
  by (simp add: strtol16_pair hex_pair_def del: of_nat_add of_nat_mult)

lemma unat_byte_of_nat: "n < 256 \<Longrightarrow> unat (word_of_nat n :: byte) = n"
  by (simp add: unat_of_nat)

lemma hex_digit_toupper:
  "hexval c = Some x \<Longrightarrow> hex_digit x = toupper c"
  by (auto simp: hexval_def hex_digit_def toupper_def Let_def split: if_splits)

lemma hex02X_pair:
  assumes "isxdigit a" "isxdigit b"
  shows "hex02X (hex_pair a b) = [toupper a, toupper b]"
proof -
  from assms obtain x y where x: "hexval a = Some x" "x < 16" and y: "hexval b = Some y" "y < 16"
    using hexval_cases by blast
  have "unat (word_of_nat (16 * x + y) :: byte) = 16 * x + y"
    using x y by (intro unat_byte_of_nat) simp
  then show ?thesis using x y
    by (simp add: hex02X_def hex_pair_def hex_digit_toupper del: of_nat_add of_nat_mult)
qed

text \<open>A canonical text, character by character.\<close>

lemma canonical_guidE:
  assumes "canonical_guid s"
  obtains c0 c1 c2 c3 c4 c5 c6 c7 d0 d1 d2 d3 e0 e1 e2 e3 f0 f1 f2 f3
          g0 g1 g2 g3 g4 g5 g6 g7 g8 g9 g10 g11
  where "s = [c0, c1, c2, c3, c4, c5, c6, c7, CHR ''-'', d0, d1, d2, d3, CHR ''-'',
              e0, e1, e2, e3, CHR ''-'', f0, f1, f2, f3, CHR ''-'',
              g0, g1, g2, g3, g4, g5, g6, g7, g8, g9, g10, g11]"
    and "list_all isxdigit [c0, c1, c2, c3, c4, c5, c6, c7, d0, d1, d2, d3, e0, e1, e2, e3,
           f0, f1, f2, f3, g0, g1, g2, g3, g4, g5, g6, g7, g8, g9, g10, g11]"
  using assms by (auto simp: canonical_guid_def list_all2_Cons1)

lemma c_str_Cons: "c \<noteq> CHR 0x00 \<Longrightarrow> c_str (c # cs) = c # c_str cs"
  by (simp add: c_str_def)

lemma c_str_Nil: "c_str [] = []"
  by (simp add: c_str_def)

lemma canonical_parse:
  assumes "canonical_guid s"
  shows "guid_parse s = Inr (on_disk_guid s)"
  using assms
  apply (elim canonical_guidE)
  apply (simp add: guid_parse_def on_disk_guid_def c_str_Cons c_str_Nil isxdigit_not_special
      strtol16_hex_pair bind_err_def eval_nat_numeral)
  done

lemma canonical_print:
  assumes "canonical_guid s"
  shows "guid_print (on_disk_guid s) = map toupper s @ [CHR 0x0A]"
  using assms
  apply (elim canonical_guidE)
  apply (simp add: guid_print_def on_disk_guid_def hex02X_pair eval_nat_numeral)
  apply (simp add: toupper_def)
  done

lemma short_guid_rejected:
  "length (c_str s) < 36 \<Longrightarrow> guid_parse s = Inl InvalidGuid"
  by (simp add: guid_parse_def)

lemma handle_opts_append:
  "handle_opts m (xs @ ys) = bind_err (handle_opts m xs) (\<lambda>m'. handle_opts m' ys)"
  by (induction xs arbitrary: m) (auto simp: bind_err_def split: sum.splits)

lemma example_guid_canonical: "canonical_guid ''5452574f-2211-4433-5566-778899aaBB00''"
  by (simp add: canonical_guid_def isxdigit_def hexval_def)

text \<open>
  C5, as the spec states it: \<^verbatim>\<open>guid_parse\<close> fails on every text that has a character
  other than a hexadecimal digit at the place of a digit, or that is not 36 characters
  long. It accepts a text of 36 characters none of which is a digit (\<^verbatim>\<open>strtol\<close> returns
  0 where it finds no digit), a text with three characters behind the 36th, and a text
  with a hyphen in the wrong place.
\<close>

theorem guid_parse_accepts_non_hex:
  "\<not> isxdigit (CHR ''Z'')
   \<and> guid_parse ''ZZZZZZZZ-ZZZZ-ZZZZ-ZZZZ-ZZZZZZZZZZZZ'' = Inr (replicate 16 0)
   \<and> length ''5452574F-2211-4433-5566-778899AABB00XYZ'' = 39
   \<and> guid_parse ''5452574F-2211-4433-5566-778899AABB00XYZ''
       = Inr [0x4F, 0x57, 0x52, 0x54, 0x11, 0x22, 0x33, 0x44, 0x55, 0x66, 0x77, 0x88,
              0x99, 0xAA, 0xBB, 0x00]
   \<and> guid_parse ''5452574F-2211-4433-5566-778899AAB-B0''
       = Inr [0x4F, 0x57, 0x52, 0x54, 0x11, 0x22, 0x33, 0x44, 0x55, 0x66, 0x77, 0x88,
              0x99, 0xAA, 0x0B, 0xB0]"
  by code_simp

text \<open>
  C5, amended: \<^verbatim>\<open>guid_parse\<close> returns the format error for every text shorter than 36
  characters, and then the whole invocation ends with \<open>InvalidGuid\<close> (the message
  \<^verbatim>\<open>Invalid guid string\<close>) having printed and written nothing, wherever the option stands
  among options that are themselves accepted; and \<^verbatim>\<open>guid_parse\<close> succeeds on every
  canonical text. Whether the characters are digits is not checked.
\<close>

theorem guid_parse_rejects_short:
  "(length (c_str s) < 36 \<longrightarrow>
      guid_parse s = Inl InvalidGuid
      \<and> (\<forall>m' pre post e rest.
            handle_opts main_init pre = Inr m' \<longrightarrow>
            main e (pre @ Opt_G s # post) rest
              = \<lparr>printed = [], sink = [], result = Inl InvalidGuid\<rparr>))
   \<and> (canonical_guid s \<longrightarrow> (\<exists>g. guid_parse s = Inr g \<and> length g = 16))"
proof (intro conjI impI allI)
  assume "length (c_str s) < 36"
  then show "guid_parse s = Inl InvalidGuid" by (rule short_guid_rejected)
next
  fix m' :: main_state and pre post e rest
  assume short: "length (c_str s) < 36" and pre: "handle_opts main_init pre = Inr m'"
  have "handle_opt m' (Opt_G s) = Inl InvalidGuid"
    by (simp add: short_guid_rejected [OF short])
  then have "handle_opts main_init (pre @ Opt_G s # post) = Inl InvalidGuid"
    by (simp add: handle_opts_append pre bind_err_def)
  then show "main e (pre @ Opt_G s # post) rest
             = \<lparr>printed = [], sink = [], result = Inl InvalidGuid\<rparr>"
    by (simp add: main_def)
next
  assume "canonical_guid s"
  then have "guid_parse s = Inr (on_disk_guid s)" by (rule canonical_parse)
  then show "\<exists>g. guid_parse s = Inr g \<and> length g = 16"
    by (simp add: on_disk_guid_def)
qed

theorem guid_parse_rejects_short_witness:
  "guid_parse ''5452574F-2211-4433-5566-778899AABB0'' = Inl InvalidGuid
   \<and> main good_env ([Opt_g, Opt_h 16] @ Opt_G ''5452574F-2211-4433-5566-778899AABB0'' # [Opt_s 63]) 0
       = \<lparr>printed = [], sink = [], result = Inl InvalidGuid\<rparr>
   \<and> (\<exists>g. guid_parse ''5452574f-2211-4433-5566-778899aaBB00'' = Inr g \<and> length g = 16)"
proof -
  have short: "length (c_str ''5452574F-2211-4433-5566-778899AABB0'') < 36"
    by (simp add: c_str_def)
  have pre: "handle_opts main_init [Opt_g, Opt_h 16]
             = Inr (main_init\<lparr>ms_use_guid_partition_table := True,
                             ms_config := (ms_config main_init)\<lparr>heads := 16\<rparr>\<rparr>)"
    by (simp add: bind_err_def)
  note r = guid_parse_rejects_short [of "''5452574F-2211-4433-5566-778899AABB0''",
      THEN conjunct1, THEN mp, OF short]
  show ?thesis
  proof (intro conjI)
    show "guid_parse ''5452574F-2211-4433-5566-778899AABB0'' = Inl InvalidGuid"
      by (rule r [THEN conjunct1])
    show "main good_env
            ([Opt_g, Opt_h 16] @ Opt_G ''5452574F-2211-4433-5566-778899AABB0'' # [Opt_s 63]) 0
          = \<lparr>printed = [], sink = [], result = Inl InvalidGuid\<rparr>"
      by (rule r [THEN conjunct2, rule_format, OF pre])
    show "\<exists>g. guid_parse ''5452574f-2211-4433-5566-778899aaBB00'' = Inr g \<and> length g = 16"
      by (rule guid_parse_rejects_short [of "''5452574f-2211-4433-5566-778899aaBB00''",
            THEN conjunct2, THEN mp, OF example_guid_canonical])
  qed
qed

text \<open>
  C6: for every canonical text, \<^verbatim>\<open>guid_parse\<close> yields the mixed-endian on-disk form
  (the first four bytes in reverse order, the next two pairs in reverse order, the last
  eight bytes in order), and \<^verbatim>\<open>guid_print\<close> of these bytes prints the text again, with
  every letter in upper case, followed by the newline of the format.
\<close>

theorem guid_round_trip:
  "canonical_guid s \<Longrightarrow>
     \<exists>g. guid_parse s = Inr g
       \<and> g = on_disk_guid s
       \<and> guid_print g = map toupper s @ [CHR 0x0A]"
  by (simp add: canonical_parse canonical_print)

theorem guid_round_trip_witness:
  "canonical_guid ''5452574f-2211-4433-5566-778899aaBB00''
   \<and> (\<exists>g. guid_parse ''5452574f-2211-4433-5566-778899aaBB00'' = Inr g
        \<and> g = [0x4F, 0x57, 0x52, 0x54, 0x11, 0x22, 0x33, 0x44, 0x55, 0x66, 0x77, 0x88,
               0x99, 0xAA, 0xBB, 0x00]
        \<and> guid_print g = ''5452574F-2211-4433-5566-778899AABB00'' @ [CHR 0x0A])"
proof -
  have "on_disk_guid ''5452574f-2211-4433-5566-778899aaBB00''
        = [0x4F, 0x57, 0x52, 0x54, 0x11, 0x22, 0x33, 0x44, 0x55, 0x66, 0x77, 0x88,
           0x99, 0xAA, 0xBB, 0x00]"
    by (simp add: on_disk_guid_def hex_pair_def hexval_def)
  moreover have "map toupper ''5452574f-2211-4433-5566-778899aaBB00''
        = ''5452574F-2211-4433-5566-778899AABB00''"
    by code_simp
  ultimately show ?thesis
    using guid_round_trip [OF example_guid_canonical] example_guid_canonical by simp
qed

section \<open>Layout of the bytes and the writes of a run\<close>

lemma bind_err_Inr [simp]: "bind_err (Inr x) f = f x" by (simp add: bind_err_def)
lemma bind_err_Inl [simp]: "bind_err (Inl e) f = Inl e" by (simp add: bind_err_def)

lemma bind_err_eq_Inr:
  "bind_err m f = Inr y \<longleftrightarrow> (\<exists>x. m = Inr x \<and> f x = Inr y)"
  by (cases m) simp_all

lemma length_le [simp]: "length (le16 a) = 2" "length (le32 b) = 4" "length (le64 c) = 8"
  by (simp_all add: le16_def le32_def le64_def)

lemma le_decode_le32: "(le_decode (le32 w) :: 32 word) = w"
proof (rule bit_word_eqI)
  fix n assume "n < LENGTH(32)"
  then consider "n < 8" | "8 \<le> n" "n < 16" | "16 \<le> n" "n < 24" | "24 \<le> n" "n < 32"
    by fastforce
  then show "bit (le_decode (le32 w) :: 32 word) n = bit w n"
    by cases (auto simp: le32_def bit_simps)
qed






subsection \<open>The writes of a run that succeeds\<close>

lemma written_append: "written (xs @ ys) = written xs @ written ys"
  by (induction xs rule: written.induct) simp_all

lemma write_chain_ok:
  "write_chain e k pos ws = (ops, True) \<Longrightarrow>
     length (written ops) = length ws \<and> map snd (written ops) = map snd ws"
proof (induction ws arbitrary: k pos ops)
  case Nil
  then show ?case by simp
next
  case (Cons w ws)
  obtain off buf where w: "w = (off, buf)" by (cases w)
  from Cons.prems w have ok: "write_ok e k"
    by (auto simp: Let_def split: if_splits)
  obtain ops' ok' where r: "write_chain e (Suc k) (lseek pos off + length buf) ws = (ops', ok')"
    by (cases "write_chain e (Suc k) (lseek pos off + length buf) ws")
  from Cons.prems w ok r have "ops = FWrite (lseek pos off) buf # ops'" "ok' = True"
    by (auto simp: Let_def)
  with Cons.IH [of "Suc k" "lseek pos off + length buf" ops'] r w show ?case by simp
qed

lemma write_chain_pos:
  "write_chain e k pos ws = (ops, True) \<Longrightarrow> j < length ws \<Longrightarrow> 0 \<le> sint (fst (ws ! j)) \<Longrightarrow>
     fst (written ops ! j) = unat (fst (ws ! j))"
proof (induction ws arbitrary: k pos ops j)
  case Nil
  then show ?case by simp
next
  case (Cons w ws)
  obtain off buf where w: "w = (off, buf)" by (cases w)
  from Cons.prems w have ok: "write_ok e k"
    by (auto simp: Let_def split: if_splits)
  obtain ops' ok' where r: "write_chain e (Suc k) (lseek pos off + length buf) ws = (ops', ok')"
    by (cases "write_chain e (Suc k) (lseek pos off + length buf) ws")
  from Cons.prems w ok r have ops: "ops = FWrite (lseek pos off) buf # ops'" "ok' = True"
    by (auto simp: Let_def)
  show ?case
  proof (cases j)
    case 0
    with Cons.prems w ops show ?thesis by (simp add: lseek_def)
  next
    case (Suc j')
    with Cons.prems Cons.IH [of "Suc k" "lseek pos off + length buf" ops' j'] r ops w
    show ?thesis by simp
  qed
qed

lemma write_file_ok:
  assumes "result (write_file e out ws) = Inr ()"
  obtains ops where "write_chain e 0 0 ws = (ops, True)"
    and "sink (write_file e out ws) = FOpen # ops @ [FClose]"
    and "printed (write_file e out ws) = out"
  using assms
  by (cases "write_chain e 0 0 ws") (auto simp: write_file_def split: if_splits)

lemma written_write_file:
  assumes "result (write_file e out ws) = Inr ()"
  shows "map snd (written (sink (write_file e out ws))) = map snd ws"
    and "length (written (sink (write_file e out ws))) = length ws"
    and "j < length ws \<Longrightarrow> 0 \<le> sint (fst (ws ! j)) \<Longrightarrow>
           fst (written (sink (write_file e out ws)) ! j) = unat (fst (ws ! j))"
proof -
  from assms obtain ops where c: "write_chain e 0 0 ws = (ops, True)"
    and s: "sink (write_file e out ws) = FOpen # ops @ [FClose]"
    by (rule write_file_ok)
  from s have w: "written (sink (write_file e out ws)) = written ops"
    by (simp add: written_append)
  from write_chain_ok [OF c] w
  show "map snd (written (sink (write_file e out ws))) = map snd ws"
    and "length (written (sink (write_file e out ws))) = length ws" by simp_all
  show "fst (written (sink (write_file e out ws)) ! j) = unat (fst (ws ! j))"
    if "j < length ws" "0 \<le> sint (fst (ws ! j))"
    using write_chain_pos [OF c that] w by simp
qed

text \<open>What a run of \<^verbatim>\<open>gen_gptable\<close> that returns 0 has computed and written.\<close>

lemma gen_gptable_ok:
  assumes "result (gen_gptable e g sg guid) = Inr ()"
  obtains st bios mbr where
    "gptable_loop g guid 0 (parts g) gptable_init = Inr st"
    "bios_entry g guid (gs_gpte st ! (GPT_ENTRY_NUM - 1)) = Inr bios"
    "protective_pte e g (gs_sect st + scast (sectors g) - 1) = Inr mbr"
    "gen_gptable e g sg guid =
       write_file e (gs_out st)
         [(440, le32 sg),
          (446, pte_bytes mbr),
          (510, [0x55, 0xAA]),
          (512, gpth_bytes (primary_header guid (gs_sect st + scast (sectors g) - 1)
                   (concat (map gpte_bytes ((gs_gpte st)[GPT_ENTRY_NUM - 1 := bios]))))),
          (1024, concat (map gpte_bytes ((gs_gpte st)[GPT_ENTRY_NUM - 1 := bios]))),
          ((gs_sect st + scast (sectors g) - 1) * 512
             - word_of_nat (GPT_ENTRY_SIZE * GPT_ENTRY_NUM),
           concat (map gpte_bytes ((gs_gpte st)[GPT_ENTRY_NUM - 1 := bios]))),
          ((gs_sect st + scast (sectors g) - 1) * 512,
           gpth_bytes (backup_header
             (primary_header guid (gs_sect st + scast (sectors g) - 1)
                (concat (map gpte_bytes ((gs_gpte st)[GPT_ENTRY_NUM - 1 := bios]))))
             (gs_sect st + scast (sectors g) - 1))),
          ((gs_sect st + scast (sectors g) - 1) * 512 + 511, [0])]"
  using assms
  by (auto simp: gen_gptable_def Let_def bind_err_eq_Inr split: sum.splits prod.splits)

subsection \<open>The loop of gen_gptable, slot by slot\<close>

lemma gptable_step_others:
  assumes "gptable_step g guid i p st = Inr st'"
  shows "length (gs_gpte st') = length (gs_gpte st)"
    and "k \<noteq> i \<Longrightarrow> gs_gpte st' ! k = gs_gpte st ! k"
    and "i < GPT_ENTRY_NUM"
  using assms
  by (auto simp: gptable_step_def Let_def bind_err_eq_Inr split: if_splits)

lemma gptable_step_entry:
  assumes "gptable_step g guid i p st = Inr st'" and "i < length (gs_gpte st)"
  shows "gpte_type (gs_gpte st' ! i) =
           (if p_type p = 0xEF \<or> word_of_nat (i + 1) = active g
            then GPT_PARTITION_ESP else GPT_PARTITION_DATA)"
    and "gpte_guid (gs_gpte st' ! i) = guid[15 := guid ! 15 + word_of_nat (i + 1)]"
    and "gpte_attr (gs_gpte st' ! i) = gpte_attr (gs_gpte st ! i)"
    and "gpte_name (gs_gpte st' ! i) = gpte_name (gs_gpte st ! i)"
  using assms
  by (auto simp: gptable_step_def Let_def bind_err_eq_Inr split: if_splits)

text \<open>The two ways through one pass of the loop that goes on.\<close>

lemma gptable_loop_Cons:
  assumes "gptable_loop g guid i (p # ps) st = Inr st'"
  obtains (skip) "p_size p = 0" "gptable_loop g guid (Suc i) ps st = Inr st'"
  | (step) st1 where "p_size p \<noteq> 0" "gptable_step g guid i p st = Inr st1"
      "gptable_loop g guid (Suc i) ps st1 = Inr st'"
  using assms by (auto split: if_splits sum.splits)

lemma gptable_loop_length:
  "gptable_loop g guid i ps st = Inr st' \<Longrightarrow> length (gs_gpte st') = length (gs_gpte st)"
proof (induction ps arbitrary: i st)
  case Nil
  then show ?case by simp
next
  case (Cons p ps)
  from Cons.prems show ?case
  proof (cases rule: gptable_loop_Cons)
    case skip
    then show ?thesis using Cons.IH by simp
  next
    case (step st1)
    then show ?thesis using Cons.IH [of "Suc i" st1] gptable_step_others(1) by simp
  qed
qed

lemma gptable_loop_outside:
  "gptable_loop g guid i ps st = Inr st' \<Longrightarrow> k < i \<or> i + length ps \<le> k \<Longrightarrow>
     gs_gpte st' ! k = gs_gpte st ! k"
proof (induction ps arbitrary: i st)
  case Nil
  then show ?case by simp
next
  case (Cons p ps)
  from Cons.prems(2) have k: "k < Suc i \<or> Suc i + length ps \<le> k" "k \<noteq> i" by auto
  from Cons.prems(1) show ?case
  proof (cases rule: gptable_loop_Cons)
    case skip
    then show ?thesis using Cons.IH [of "Suc i" st] k by simp
  next
    case (step st1)
    then show ?thesis
      using Cons.IH [of "Suc i" st1] k gptable_step_others(2) [of g guid i p st st1 k] by simp
  qed
qed

lemma gptable_loop_skipped:
  "gptable_loop g guid i ps st = Inr st' \<Longrightarrow> i \<le> k \<Longrightarrow> k < i + length ps \<Longrightarrow>
     p_size (ps ! (k - i)) = 0 \<Longrightarrow> gs_gpte st' ! k = gs_gpte st ! k"
proof (induction ps arbitrary: i st)
  case Nil
  then show ?case by simp
next
  case (Cons p ps)
  show ?case
  proof (cases "k = i")
    case True
    with Cons.prems have "p_size p = 0" by simp
    with Cons.prems(1) have "gptable_loop g guid (Suc i) ps st = Inr st'"
      by (elim gptable_loop_Cons) simp_all
    then show ?thesis using gptable_loop_outside [of g guid "Suc i" ps st st' k] True by simp
  next
    case False
    with Cons.prems have k: "Suc i \<le> k" "k < Suc i + length ps" "p_size (ps ! (k - Suc i)) = 0"
      by (auto simp: nth_Cons')
    from Cons.prems(1) show ?thesis
    proof (cases rule: gptable_loop_Cons)
      case skip
      then show ?thesis using Cons.IH [of "Suc i" st] k by simp
    next
      case (step st1)
      then show ?thesis
        using Cons.IH [of "Suc i" st1] k gptable_step_others(2) [of g guid i p st st1 k] False
        by simp
    qed
  qed
qed

lemma gptable_loop_retained:
  "gptable_loop g guid i ps st = Inr st' \<Longrightarrow> i \<le> k \<Longrightarrow> k < i + length ps \<Longrightarrow>
     p_size (ps ! (k - i)) \<noteq> 0 \<Longrightarrow>
     \<exists>st1 st2. gptable_step g guid k (ps ! (k - i)) st1 = Inr st2
              \<and> gs_gpte st1 ! k = gs_gpte st ! k
              \<and> length (gs_gpte st1) = length (gs_gpte st)
              \<and> gs_gpte st' ! k = gs_gpte st2 ! k"
proof (induction ps arbitrary: i st)
  case Nil
  then show ?case by simp
next
  case (Cons p ps)
  show ?case
  proof (cases "k = i")
    case True
    with Cons.prems have "p_size p \<noteq> 0" by simp
    with Cons.prems(1) obtain st1 where s: "gptable_step g guid i p st = Inr st1"
      and l: "gptable_loop g guid (Suc i) ps st1 = Inr st'"
      by (elim gptable_loop_Cons) simp_all
    from gptable_loop_outside [OF l, of k] True have "gs_gpte st' ! k = gs_gpte st1 ! k"
      by simp
    with s True show ?thesis by auto
  next
    case False
    with Cons.prems have k: "Suc i \<le> k" "k < Suc i + length ps"
      "p_size (ps ! (k - Suc i)) \<noteq> 0" "(p # ps) ! (k - i) = ps ! (k - Suc i)"
      by (auto simp: nth_Cons')
    from Cons.prems(1) show ?thesis
    proof (cases rule: gptable_loop_Cons)
      case skip
      then show ?thesis using Cons.IH [of "Suc i" st] k by simp
    next
      case (step st1)
      then show ?thesis
        using Cons.IH [of "Suc i" st1] k gptable_step_others(1) [of g guid i p st st1]
          gptable_step_others(2) [of g guid i p st st1 k] False
        by simp
    qed
  qed
qed

lemma length_concat_le16: "length (concat (map le16 xs)) = 2 * length xs"
  by (induction xs) simp_all

lemma length_gpte_bytes: "gpte_wf x \<Longrightarrow> length (gpte_bytes x) = 128"
  by (simp add: gpte_wf_def gpte_bytes_def length_concat_le16)

lemma length_concat_const:
  "(\<And>x. x \<in> set xs \<Longrightarrow> length (f x) = n) \<Longrightarrow> length (concat (map f xs)) = n * length xs"
  by (induction xs) simp_all

lemma slot_concat:
  "(\<And>x. x \<in> set xs \<Longrightarrow> length (f x) = n) \<Longrightarrow> k < length xs \<Longrightarrow>
     slot n k (concat (map f xs)) = f (xs ! k)"
proof (induction xs arbitrary: k)
  case Nil
  then show ?case by simp
next
  case (Cons x xs)
  show ?case
  proof (cases k)
    case 0
    with Cons.prems show ?thesis by (simp add: slot_def)
  next
    case (Suc k')
    with Cons.prems Cons.IH [of k'] show ?thesis by (simp add: slot_def)
  qed
qed

lemma length_GUIDs [simp]:
  "length GPT_PARTITION_ESP = 16" "length GPT_PARTITION_DATA = 16" "length GPT_PARTITION_BIOS = 16"
  by (simp_all add: GPT_PARTITION_ESP_def GPT_PARTITION_DATA_def GPT_PARTITION_BIOS_def
      GUID_INIT_def)

lemma gptable_init_nth:
  "k < GPT_ENTRY_NUM \<Longrightarrow> gs_gpte gptable_init ! k = gpte_zero"
  "length (gs_gpte gptable_init) = GPT_ENTRY_NUM"
  by (simp_all add: gptable_init_def)

text \<open>Every entry that the loop leaves behind, by the request of its index.\<close>

lemma gptable_loop_entry:
  assumes l: "gptable_loop g guid 0 ps gptable_init = Inr st" and k: "k < GPT_ENTRY_NUM"
  shows "length (gs_gpte st) = GPT_ENTRY_NUM"
    and "k < length ps \<Longrightarrow> p_size (ps ! k) \<noteq> 0 \<Longrightarrow>
           gs_gpte st ! k = (gs_gpte st ! k)
             \<lparr>gpte_type := (if p_type (ps ! k) = 0xEF \<or> word_of_nat (k + 1) = active g
                             then GPT_PARTITION_ESP else GPT_PARTITION_DATA),
              gpte_guid := guid[15 := guid ! 15 + word_of_nat (k + 1)],
              gpte_attr := 0, gpte_name := replicate 36 0\<rparr>"
    and "\<not> (k < length ps \<and> p_size (ps ! k) \<noteq> 0) \<Longrightarrow> gs_gpte st ! k = gpte_zero"
proof -
  show len: "length (gs_gpte st) = GPT_ENTRY_NUM"
    using gptable_loop_length [OF l] by (simp add: gptable_init_nth)
  show "gs_gpte st ! k = gpte_zero" if "\<not> (k < length ps \<and> p_size (ps ! k) \<noteq> 0)"
  proof (cases "k < length ps")
    case True
    with that have "p_size (ps ! (k - 0)) = 0" by simp
    from gptable_loop_skipped [OF l _ _ this] True k show ?thesis
      by (simp add: gptable_init_nth)
  next
    case False
    with gptable_loop_outside [OF l, of k] k show ?thesis
      by (simp add: gptable_init_nth)
  qed
  show "gs_gpte st ! k = (gs_gpte st ! k)
             \<lparr>gpte_type := (if p_type (ps ! k) = 0xEF \<or> word_of_nat (k + 1) = active g
                             then GPT_PARTITION_ESP else GPT_PARTITION_DATA),
              gpte_guid := guid[15 := guid ! 15 + word_of_nat (k + 1)],
              gpte_attr := 0, gpte_name := replicate 36 0\<rparr>"
    if "k < length ps" "p_size (ps ! k) \<noteq> 0"
  proof -
    from that have "p_size (ps ! (k - 0)) \<noteq> 0" by simp
    from gptable_loop_retained [OF l _ _ this] that obtain st1 st2
      where s: "gptable_step g guid k (ps ! k) st1 = Inr st2"
        and z: "gs_gpte st1 ! k = gpte_zero" "length (gs_gpte st1) = GPT_ENTRY_NUM"
        and e: "gs_gpte st ! k = gs_gpte st2 ! k"
      using k by (auto simp: gptable_init_nth)
    from z k have "k < length (gs_gpte st1)" by simp
    from gptable_step_entry [OF s this] z e show ?thesis
      by (simp add: gpte_zero_def)
  qed
qed

lemma le_decode_le64: "(le_decode (le64 w) :: 64 word) = w"
proof (rule bit_word_eqI)
  fix n assume "n < LENGTH(64)"
  then consider "n < 8" | "8 \<le> n" "n < 16" | "16 \<le> n" "n < 24" | "24 \<le> n" "n < 32"
    | "32 \<le> n" "n < 40" | "40 \<le> n" "n < 48" | "48 \<le> n" "n < 56" | "56 \<le> n" "n < 64"
    by fastforce
  then show "bit (le_decode (le64 w) :: 64 word) n = bit w n"
    by cases (auto simp: le64_def bit_simps)
qed

lemma entry_fields:
  assumes "gpte_wf x"
  shows "entry_type (gpte_bytes x) = gpte_type x"
    and "entry_start_lba (gpte_bytes x) = gpte_start x"
    and "entry_end_lba (gpte_bytes x) = gpte_end x"
  using assms
  by (simp_all add: gpte_wf_def gpte_bytes_def entry_type_def entry_start_lba_def
      entry_end_lba_def le_decode_le64)


lemma bios_entry_ok:
  assumes "bios_entry g guid x = Inr bios"
  obtains r where
    "(if kb_align g \<noteq> 0 then round_to_kb g (scast (sectors g)) else Inr (scast (sectors g)))
       = Inr r"
    "bios = x\<lparr>gpte_start := 34, gpte_end := r - 1, gpte_type := GPT_PARTITION_BIOS,
              gpte_guid := guid[15 := guid ! 15 + 128]\<rparr>"
  using assms
  by (auto simp: bios_entry_def bind_err_eq_Inr GPT_ENTRY_SIZE_def GPT_ENTRY_NUM_def)

text \<open>The entries of a run, once the last one is in place: all are 128 bytes.\<close>

lemma final_entries_wf:
  assumes l: "gptable_loop g guid 0 ps gptable_init = Inr st"
    and b: "bios_entry g guid (gs_gpte st ! (GPT_ENTRY_NUM - 1)) = Inr bios"
    and guid: "length guid = 16"
    and x: "x \<in> set ((gs_gpte st)[GPT_ENTRY_NUM - 1 := bios])"
  shows "gpte_wf x"
proof -
  have len: "length (gs_gpte st) = GPT_ENTRY_NUM"
    using gptable_loop_entry(1) [OF l, of 0] by (simp add: GPT_ENTRY_NUM_def)
  have wf: "gpte_wf (gs_gpte st ! k)" if "k < GPT_ENTRY_NUM" for k
  proof (cases "k < length ps \<and> p_size (ps ! k) \<noteq> 0")
    case True
    then have "gs_gpte st ! k = (gs_gpte st ! k)
             \<lparr>gpte_type := (if p_type (ps ! k) = 0xEF \<or> word_of_nat (k + 1) = active g
                             then GPT_PARTITION_ESP else GPT_PARTITION_DATA),
              gpte_guid := guid[15 := guid ! 15 + word_of_nat (k + 1)],
              gpte_attr := 0, gpte_name := replicate 36 0\<rparr>"
      using gptable_loop_entry(2) [OF l that] by blast
    then have "gpte_wf (gs_gpte st ! k) = gpte_wf ((gs_gpte st ! k)
             \<lparr>gpte_type := (if p_type (ps ! k) = 0xEF \<or> word_of_nat (k + 1) = active g
                             then GPT_PARTITION_ESP else GPT_PARTITION_DATA),
              gpte_guid := guid[15 := guid ! 15 + word_of_nat (k + 1)],
              gpte_attr := 0, gpte_name := replicate 36 0\<rparr>)"
      by simp
    then show ?thesis using guid by (simp add: gpte_wf_def)
  next
    case False
    then have "gs_gpte st ! k = gpte_zero"
      using gptable_loop_entry(3) [OF l that] by blast
    then show ?thesis by (simp add: gpte_wf_def gpte_zero_def)
  qed
  from b obtain r where
    bios: "bios = (gs_gpte st ! (GPT_ENTRY_NUM - 1))
              \<lparr>gpte_start := 34, gpte_end := r - 1, gpte_type := GPT_PARTITION_BIOS,
               gpte_guid := guid[15 := guid ! 15 + 128]\<rparr>"
    by (rule bios_entry_ok)
  have "gpte_wf bios"
    using wf [of "GPT_ENTRY_NUM - 1"] guid by (simp add: bios gpte_wf_def GPT_ENTRY_NUM_def)
  moreover from x obtain k where "k < GPT_ENTRY_NUM" "x = ((gs_gpte st)[GPT_ENTRY_NUM - 1 := bios]) ! k"
    using len by (auto simp: in_set_conv_nth)
  ultimately show ?thesis using wf [of k] len by (cases "k = GPT_ENTRY_NUM - 1") simp_all
qed

text \<open>The eight writes of a run of \<^verbatim>\<open>gen_gptable\<close> that returns 0.\<close>

lemma gen_gptable_written:
  assumes ok: "result (gen_gptable e g sg guid) = Inr ()" and guid: "length guid = 16"
  obtains st bios mbr ents h where
    "gptable_loop g guid 0 (parts g) gptable_init = Inr st"
    "bios_entry g guid (gs_gpte st ! (GPT_ENTRY_NUM - 1)) = Inr bios"
    "ents = concat (map gpte_bytes ((gs_gpte st)[GPT_ENTRY_NUM - 1 := bios]))"
    "h = primary_header guid (gs_sect st + scast (sectors g) - 1) ents"
    "printed (gen_gptable e g sg guid) = gs_out st"
    "length (written (sink (gen_gptable e g sg guid))) = 8"
    "fst (nth_write (gen_gptable e g sg guid) 3) = 512"
    "fst (nth_write (gen_gptable e g sg guid) 4) = 1024"
    "gpt_header (gen_gptable e g sg guid) = gpth_bytes h"
    "gpt_entries (gen_gptable e g sg guid) = ents"
    "gpt_backup_entries (gen_gptable e g sg guid) = ents"
    "gpt_backup_header (gen_gptable e g sg guid)
       = gpth_bytes (backup_header h (gs_sect st + scast (sectors g) - 1))"
    "length ents = 128 * 128"
    "\<And>k. k < GPT_ENTRY_NUM \<Longrightarrow>
        slot 128 k ents = gpte_bytes (((gs_gpte st)[GPT_ENTRY_NUM - 1 := bios]) ! k)"
    "\<And>k. k < GPT_ENTRY_NUM \<Longrightarrow> gpte_wf (((gs_gpte st)[GPT_ENTRY_NUM - 1 := bios]) ! k)"
proof -
  from ok obtain st bios mbr where
    l: "gptable_loop g guid 0 (parts g) gptable_init = Inr st"
    and b: "bios_entry g guid (gs_gpte st ! (GPT_ENTRY_NUM - 1)) = Inr bios"
    and w: "gen_gptable e g sg guid =
       write_file e (gs_out st)
         [(440, le32 sg),
          (446, pte_bytes mbr),
          (510, [0x55, 0xAA]),
          (512, gpth_bytes (primary_header guid (gs_sect st + scast (sectors g) - 1)
                   (concat (map gpte_bytes ((gs_gpte st)[GPT_ENTRY_NUM - 1 := bios]))))),
          (1024, concat (map gpte_bytes ((gs_gpte st)[GPT_ENTRY_NUM - 1 := bios]))),
          ((gs_sect st + scast (sectors g) - 1) * 512
             - word_of_nat (GPT_ENTRY_SIZE * GPT_ENTRY_NUM),
           concat (map gpte_bytes ((gs_gpte st)[GPT_ENTRY_NUM - 1 := bios]))),
          ((gs_sect st + scast (sectors g) - 1) * 512,
           gpth_bytes (backup_header
             (primary_header guid (gs_sect st + scast (sectors g) - 1)
                (concat (map gpte_bytes ((gs_gpte st)[GPT_ENTRY_NUM - 1 := bios]))))
             (gs_sect st + scast (sectors g) - 1))),
          ((gs_sect st + scast (sectors g) - 1) * 512 + 511, [0])]"
    by (rule gen_gptable_ok)
  define E where "E = (gs_gpte st)[GPT_ENTRY_NUM - 1 := bios]"
  define ents where "ents = concat (map gpte_bytes E)"
  define h where "h = primary_header guid (gs_sect st + scast (sectors g) - 1) ents"
  define ws where "ws = written (sink (gen_gptable e g sg guid))"
  have len: "length E = GPT_ENTRY_NUM"
    using gptable_loop_entry(1) [OF l, of 0] by (simp add: E_def GPT_ENTRY_NUM_def)
  have wf: "gpte_wf x" if "x \<in> set E" for x
    using final_entries_wf [OF l b guid] that by (simp add: E_def)
  then have l128: "length (gpte_bytes x) = 128" if "x \<in> set E" for x
    using that by (simp add: length_gpte_bytes)
  from ok have ok': "result (write_file e (gs_out st)
         [(440, le32 sg), (446, pte_bytes mbr), (510, [0x55, 0xAA]), (512, gpth_bytes h),
          (1024, ents),
          ((gs_sect st + scast (sectors g) - 1) * 512
             - word_of_nat (GPT_ENTRY_SIZE * GPT_ENTRY_NUM), ents),
          ((gs_sect st + scast (sectors g) - 1) * 512,
           gpth_bytes (backup_header h (gs_sect st + scast (sectors g) - 1))),
          ((gs_sect st + scast (sectors g) - 1) * 512 + 511, [0])]) = Inr ()"
    by (simp add: w h_def ents_def E_def)
  note W = written_write_file [OF ok', folded h_def ents_def E_def]
  have ws: "ws = written (sink (write_file e (gs_out st)
         [(440, le32 sg), (446, pte_bytes mbr), (510, [0x55, 0xAA]), (512, gpth_bytes h),
          (1024, ents),
          ((gs_sect st + scast (sectors g) - 1) * 512
             - word_of_nat (GPT_ENTRY_SIZE * GPT_ENTRY_NUM), ents),
          ((gs_sect st + scast (sectors g) - 1) * 512,
           gpth_bytes (backup_header h (gs_sect st + scast (sectors g) - 1))),
          ((gs_sect st + scast (sectors g) - 1) * 512 + 511, [0])]))"
    by (simp add: ws_def w h_def ents_def E_def)
  have n: "length ws = 8" using W(2) by (simp add: ws)
  have snds: "map snd ws = [le32 sg, pte_bytes mbr, [0x55, 0xAA], gpth_bytes h, ents, ents,
       gpth_bytes (backup_header h (gs_sect st + scast (sectors g) - 1)), [0]]"
    using W(1) by (simp add: ws)
  have s: "snd (ws ! 3) = gpth_bytes h" "snd (ws ! 4) = ents" "snd (ws ! 5) = ents"
    "snd (ws ! 6) = gpth_bytes (backup_header h (gs_sect st + scast (sectors g) - 1))"
    using arg_cong [OF snds, of "\<lambda>xs. xs ! 3"] arg_cong [OF snds, of "\<lambda>xs. xs ! 4"]
      arg_cong [OF snds, of "\<lambda>xs. xs ! 5"] arg_cong [OF snds, of "\<lambda>xs. xs ! 6"] n
    by simp_all
  have f: "fst (ws ! 3) = 512" "fst (ws ! 4) = 1024"
    using W(3) [of 3] W(3) [of 4] by (simp_all add: ws)
  show ?thesis
  proof (rule that [of st bios ents h])
    show "gptable_loop g guid 0 (parts g) gptable_init = Inr st" by (rule l)
    show "bios_entry g guid (gs_gpte st ! (GPT_ENTRY_NUM - 1)) = Inr bios" by (rule b)
    show "ents = concat (map gpte_bytes ((gs_gpte st)[GPT_ENTRY_NUM - 1 := bios]))"
      by (simp add: ents_def E_def)
    show "h = primary_header guid (gs_sect st + scast (sectors g) - 1) ents" by (rule h_def)
    show "printed (gen_gptable e g sg guid) = gs_out st"
      by (simp add: w write_file_def split: prod.splits)
    show "length (written (sink (gen_gptable e g sg guid))) = 8" using n by (simp add: ws_def)
    show "fst (nth_write (gen_gptable e g sg guid) 3) = 512"
      using f(1) by (simp add: ws_def nth_write_def)
    show "fst (nth_write (gen_gptable e g sg guid) 4) = 1024"
      using f(2) by (simp add: ws_def nth_write_def)
    show "gpt_header (gen_gptable e g sg guid) = gpth_bytes h"
      using s(1) by (simp add: ws_def gpt_header_def nth_write_def)
    show "gpt_entries (gen_gptable e g sg guid) = ents"
      using s(2) by (simp add: ws_def gpt_entries_def nth_write_def)
    show "gpt_backup_entries (gen_gptable e g sg guid) = ents"
      using s(3) by (simp add: ws_def gpt_backup_entries_def nth_write_def)
    show "gpt_backup_header (gen_gptable e g sg guid)
       = gpth_bytes (backup_header h (gs_sect st + scast (sectors g) - 1))"
      using s(4) by (simp add: ws_def gpt_backup_header_def nth_write_def)
    show "length ents = 128 * 128"
      using length_concat_const [of E gpte_bytes 128] l128 len
      by (simp add: ents_def GPT_ENTRY_NUM_def)
    show "slot 128 k ents = gpte_bytes (((gs_gpte st)[GPT_ENTRY_NUM - 1 := bios]) ! k)"
      if "k < GPT_ENTRY_NUM" for k
      using slot_concat [of E gpte_bytes 128 k] l128 len that by (simp add: ents_def E_def)
    show "gpte_wf (((gs_gpte st)[GPT_ENTRY_NUM - 1 := bios]) ! k)" if "k < GPT_ENTRY_NUM" for k
      using wf [of "E ! k"] len that by (simp add: E_def)
  qed
qed





subsection \<open>The loop of gen_ptable, slot by slot\<close>

lemma to_chs_length: "to_chs g s = Inr cs \<Longrightarrow> length cs = 3"
  by (auto simp: to_chs_def Let_def split: if_splits)

lemma length_pte_bytes: "pte_wf x \<Longrightarrow> length (pte_bytes x) = 16"
  by (simp add: pte_wf_def pte_bytes_def)

lemma pte_bytes_zero: "pte_bytes pte_zero = replicate 16 0"
  by (simp add: pte_bytes_def pte_zero_def le32_def eval_nat_numeral)

lemma pte_bytes_fields:
  assumes "pte_wf x"
  shows "pte_bytes x ! 0 = pte_active x" and "pte_bytes x ! 4 = pte_type x"
  using assms by (simp_all add: pte_wf_def pte_bytes_def nth_append)

lemma ptable_step_others:
  assumes "ptable_step g i p st = Inr st'"
  shows "length (ps_pte st') = length (ps_pte st)"
    and "k \<noteq> i \<Longrightarrow> ps_pte st' ! k = ps_pte st ! k"
    and "i < 4"
  using assms
  by (auto simp: ptable_step_def Let_def bind_err_eq_Inr split: if_splits)

lemma ptable_step_entry:
  assumes "ptable_step g i p st = Inr st'" and "i < length (ps_pte st)"
  shows "pte_active (ps_pte st' ! i) = (if word_of_nat (i + 1) = active g then 0x80 else 0)"
    and "pte_type (ps_pte st' ! i) = ucast (p_type p)"
    and "pte_wf (ps_pte st' ! i)"
  using assms
  by (auto simp: ptable_step_def Let_def bind_err_eq_Inr pte_wf_def to_chs_length
      split: if_splits)

lemma ptable_loop_Cons:
  assumes "ptable_loop g i (p # ps) st = Inr st'"
  obtains (skip) "p_size p = 0" "ignore_null_sized_partition g"
      "ptable_loop g (Suc i) ps st = Inr st'"
  | (step) st1 where "p_size p \<noteq> 0" "ptable_step g i p st = Inr st1"
      "ptable_loop g (Suc i) ps st1 = Inr st'"
  using assms by (auto split: if_splits sum.splits)

lemma ptable_loop_length:
  "ptable_loop g i ps st = Inr st' \<Longrightarrow> length (ps_pte st') = length (ps_pte st)"
proof (induction ps arbitrary: i st)
  case Nil
  then show ?case by simp
next
  case (Cons p ps)
  from Cons.prems show ?case
  proof (cases rule: ptable_loop_Cons)
    case skip
    then show ?thesis using Cons.IH by simp
  next
    case (step st1)
    then show ?thesis using Cons.IH [of "Suc i" st1] ptable_step_others(1) by simp
  qed
qed

lemma ptable_loop_outside:
  "ptable_loop g i ps st = Inr st' \<Longrightarrow> k < i \<or> i + length ps \<le> k \<Longrightarrow>
     ps_pte st' ! k = ps_pte st ! k"
proof (induction ps arbitrary: i st)
  case Nil
  then show ?case by simp
next
  case (Cons p ps)
  from Cons.prems(2) have k: "k < Suc i \<or> Suc i + length ps \<le> k" "k \<noteq> i" by auto
  from Cons.prems(1) show ?case
  proof (cases rule: ptable_loop_Cons)
    case skip
    then show ?thesis using Cons.IH [of "Suc i" st] k by simp
  next
    case (step st1)
    then show ?thesis
      using Cons.IH [of "Suc i" st1] k ptable_step_others(2) [of g i p st st1 k] by simp
  qed
qed

lemma ptable_loop_skipped:
  "ptable_loop g i ps st = Inr st' \<Longrightarrow> i \<le> k \<Longrightarrow> k < i + length ps \<Longrightarrow>
     p_size (ps ! (k - i)) = 0 \<Longrightarrow> ps_pte st' ! k = ps_pte st ! k"
proof (induction ps arbitrary: i st)
  case Nil
  then show ?case by simp
next
  case (Cons p ps)
  show ?case
  proof (cases "k = i")
    case True
    with Cons.prems have "p_size p = 0" by simp
    with Cons.prems(1) have "ptable_loop g (Suc i) ps st = Inr st'"
      by (elim ptable_loop_Cons) simp_all
    then show ?thesis using ptable_loop_outside [of g "Suc i" ps st st' k] True by simp
  next
    case False
    with Cons.prems have k: "Suc i \<le> k" "k < Suc i + length ps" "p_size (ps ! (k - Suc i)) = 0"
      by (auto simp: nth_Cons')
    from Cons.prems(1) show ?thesis
    proof (cases rule: ptable_loop_Cons)
      case skip
      then show ?thesis using Cons.IH [of "Suc i" st] k by simp
    next
      case (step st1)
      then show ?thesis
        using Cons.IH [of "Suc i" st1] k ptable_step_others(2) [of g i p st st1 k] False
        by simp
    qed
  qed
qed

lemma ptable_loop_retained:
  "ptable_loop g i ps st = Inr st' \<Longrightarrow> i \<le> k \<Longrightarrow> k < i + length ps \<Longrightarrow>
     p_size (ps ! (k - i)) \<noteq> 0 \<Longrightarrow>
     \<exists>st1 st2. ptable_step g k (ps ! (k - i)) st1 = Inr st2
              \<and> length (ps_pte st1) = length (ps_pte st)
              \<and> ps_pte st' ! k = ps_pte st2 ! k"
proof (induction ps arbitrary: i st)
  case Nil
  then show ?case by simp
next
  case (Cons p ps)
  show ?case
  proof (cases "k = i")
    case True
    with Cons.prems have "p_size p \<noteq> 0" by simp
    with Cons.prems(1) obtain st1 where s: "ptable_step g i p st = Inr st1"
      and l: "ptable_loop g (Suc i) ps st1 = Inr st'"
      by (elim ptable_loop_Cons) simp_all
    from ptable_loop_outside [OF l, of k] True have "ps_pte st' ! k = ps_pte st1 ! k"
      by simp
    with s True show ?thesis by auto
  next
    case False
    with Cons.prems have k: "Suc i \<le> k" "k < Suc i + length ps"
      "p_size (ps ! (k - Suc i)) \<noteq> 0" "(p # ps) ! (k - i) = ps ! (k - Suc i)"
      by (auto simp: nth_Cons')
    from Cons.prems(1) show ?thesis
    proof (cases rule: ptable_loop_Cons)
      case skip
      then show ?thesis using Cons.IH [of "Suc i" st] k by simp
    next
      case (step st1)
      then show ?thesis
        using Cons.IH [of "Suc i" st1] k ptable_step_others(1) [of g i p st st1] by simp
    qed
  qed
qed

lemma ptable_init_nth:
  "k < 4 \<Longrightarrow> ps_pte ptable_init ! k = pte_zero"
  "length (ps_pte ptable_init) = 4"
  by (simp_all add: ptable_init_def)

text \<open>Every entry that the loop leaves behind, by the request of its index.\<close>

lemma ptable_loop_entry:
  assumes l: "ptable_loop g 0 ps ptable_init = Inr st" and k: "k < 4"
  shows "length (ps_pte st) = 4"
    and "k < length ps \<Longrightarrow> p_size (ps ! k) \<noteq> 0 \<Longrightarrow>
           (\<exists>st1 st2. ptable_step g k (ps ! k) st1 = Inr st2 \<and> length (ps_pte st1) = 4
                     \<and> ps_pte st ! k = ps_pte st2 ! k)"
    and "\<not> (k < length ps \<and> p_size (ps ! k) \<noteq> 0) \<Longrightarrow> ps_pte st ! k = pte_zero"
proof -
  show "length (ps_pte st) = 4"
    using ptable_loop_length [OF l] by (simp add: ptable_init_nth)
  show "ps_pte st ! k = pte_zero" if "\<not> (k < length ps \<and> p_size (ps ! k) \<noteq> 0)"
  proof (cases "k < length ps")
    case True
    with that have "p_size (ps ! (k - 0)) = 0" by simp
    from ptable_loop_skipped [OF l _ _ this] True k show ?thesis
      by (simp add: ptable_init_nth)
  next
    case False
    with ptable_loop_outside [OF l, of k] k show ?thesis
      by (simp add: ptable_init_nth)
  qed
  show "\<exists>st1 st2. ptable_step g k (ps ! k) st1 = Inr st2 \<and> length (ps_pte st1) = 4
                     \<and> ps_pte st ! k = ps_pte st2 ! k"
    if "k < length ps" "p_size (ps ! k) \<noteq> 0"
  proof -
    from that have "p_size (ps ! (k - 0)) \<noteq> 0" by simp
    from ptable_loop_retained [OF l _ _ this] that show ?thesis
      by (simp add: ptable_init_nth)
  qed
qed

lemma ptable_loop_wf:
  assumes l: "ptable_loop g 0 ps ptable_init = Inr st" and k: "k < 4"
  shows "pte_wf (ps_pte st ! k)"
proof (cases "k < length ps \<and> p_size (ps ! k) \<noteq> 0")
  case True
  then obtain st1 st2 where "ptable_step g k (ps ! k) st1 = Inr st2" "length (ps_pte st1) = 4"
    "ps_pte st ! k = ps_pte st2 ! k"
    using ptable_loop_entry(2) [OF l k] by blast
  then show ?thesis using ptable_step_entry(3) [of g k "ps ! k" st1 st2] k by simp
next
  case False
  then show ?thesis using ptable_loop_entry(3) [OF l k] by (simp add: pte_wf_def pte_zero_def)
qed

text \<open>The three writes of a run of \<^verbatim>\<open>gen_ptable\<close> that returns 0.\<close>

lemma gen_ptable_written:
  assumes ok: "result (gen_ptable e g sg) = Inr ()"
  obtains st where
    "ptable_loop g 0 (parts g) ptable_init = Inr st"
    "printed (gen_ptable e g sg) = ps_out st"
    "length (written (sink (gen_ptable e g sg))) = 3"
    "nth_write (gen_ptable e g sg) 0 = (440, le32 sg)"
    "fst (nth_write (gen_ptable e g sg) 1) = 446"
    "mbr_table (gen_ptable e g sg) = concat (map pte_bytes (ps_pte st))"
    "nth_write (gen_ptable e g sg) 2 = (510, [0x55, 0xAA])"
    "length (concat (map pte_bytes (ps_pte st))) = 64"
    "\<And>k. k < 4 \<Longrightarrow> slot 16 k (concat (map pte_bytes (ps_pte st))) = pte_bytes (ps_pte st ! k)"
proof -
  from ok obtain st where l: "ptable_loop g 0 (parts g) ptable_init = Inr st"
    and w: "gen_ptable e g sg = write_file e (ps_out st)
            [(440, le32 sg), (446, concat (map pte_bytes (ps_pte st))), (510, [0x55, 0xAA])]"
    by (auto simp: gen_ptable_def split: sum.splits prod.splits)
  define T where "T = concat (map pte_bytes (ps_pte st))"
  define ws where "ws = written (sink (gen_ptable e g sg))"
  from ok have ok': "result (write_file e (ps_out st)
            [(440, le32 sg), (446, T), (510, [0x55, 0xAA])]) = Inr ()"
    by (simp add: w T_def)
  note W = written_write_file [OF ok']
  have ws: "ws = written (sink (write_file e (ps_out st)
            [(440, le32 sg), (446, T), (510, [0x55, 0xAA])]))"
    by (simp add: ws_def w T_def)
  have n: "length ws = 3" using W(2) by (simp add: ws)
  have snds: "map snd ws = [le32 sg, T, [0x55, 0xAA]]" using W(1) by (simp add: ws)
  have s: "snd (ws ! 0) = le32 sg" "snd (ws ! 1) = T" "snd (ws ! 2) = [0x55, 0xAA]"
    using arg_cong [OF snds, of "\<lambda>xs. xs ! 0"] arg_cong [OF snds, of "\<lambda>xs. xs ! 1"]
      arg_cong [OF snds, of "\<lambda>xs. xs ! 2"] n
    by simp_all
  have f: "fst (ws ! 0) = 440" "fst (ws ! 1) = 446" "fst (ws ! 2) = 510"
    using W(3) [of 0] W(3) [of 1] W(3) [of 2] by (simp_all add: ws)
  have len: "length (ps_pte st) = 4"
    using ptable_loop_entry(1) [OF l, of 0] by simp
  have l16: "length (pte_bytes x) = 16" if "x \<in> set (ps_pte st)" for x
  proof -
    from that len obtain k where "k < 4" "x = ps_pte st ! k" by (auto simp: in_set_conv_nth)
    then show ?thesis using ptable_loop_wf [OF l, of k] by (simp add: length_pte_bytes)
  qed
  show ?thesis
  proof (rule that [of st])
    show "ptable_loop g 0 (parts g) ptable_init = Inr st" by (rule l)
    show "printed (gen_ptable e g sg) = ps_out st"
      by (simp add: w write_file_def split: prod.splits)
    show "length (written (sink (gen_ptable e g sg))) = 3" using n by (simp add: ws_def)
    show "nth_write (gen_ptable e g sg) 0 = (440, le32 sg)"
      using s(1) f(1) by (simp add: ws_def prod_eq_iff nth_write_def)
    show "fst (nth_write (gen_ptable e g sg) 1) = 446"
      using f(2) by (simp add: ws_def nth_write_def)
    show "mbr_table (gen_ptable e g sg) = concat (map pte_bytes (ps_pte st))"
      using s(2) by (simp add: ws_def T_def mbr_table_def nth_write_def)
    show "nth_write (gen_ptable e g sg) 2 = (510, [0x55, 0xAA])"
      using s(3) f(3) by (simp add: ws_def prod_eq_iff nth_write_def)
    show "length (concat (map pte_bytes (ps_pte st))) = 64"
      using length_concat_const [of "ps_pte st" pte_bytes 16] l16 len by simp
    show "slot 16 k (concat (map pte_bytes (ps_pte st))) = pte_bytes (ps_pte st ! k)"
      if "k < 4" for k
      using slot_concat [of "ps_pte st" pte_bytes 16 k] l16 len that by simp
  qed
qed

lemma entry_guid_field: "gpte_wf x \<Longrightarrow> entry_guid (gpte_bytes x) = gpte_guid x"
  by (simp add: gpte_wf_def gpte_bytes_def entry_guid_def)

lemma gpte_bytes_zero: "gpte_bytes gpte_zero = replicate 128 0"
  by (simp add: gpte_bytes_def gpte_zero_def le64_def le16_def eval_nat_numeral)

subsection \<open>Runs in the good environment\<close>

lemma write_chain_good: "snd (write_chain good_env k pos ws)"
  by (induction ws arbitrary: k pos) (auto simp: good_env_def Let_def split_beta)

lemma write_file_good: "result (write_file good_env out ws) = Inr ()"
  using write_chain_good [of 0 0 ws]
  by (cases "write_chain good_env 0 0 ws") (simp add: write_file_def good_env_def)

lemma gen_ptable_good:
  "ptable_loop g 0 (parts g) ptable_init = Inr st \<Longrightarrow> result (gen_ptable good_env g sg) = Inr ()"
  by (simp add: gen_ptable_def write_file_good)

lemma gen_gptable_good:
  "gptable_loop g guid 0 (parts g) gptable_init = Inr st \<Longrightarrow>
   bios_entry g guid (gs_gpte st ! (GPT_ENTRY_NUM - 1)) = Inr b \<Longrightarrow>
   protective_pte good_env g (gs_sect st + scast (sectors g) - 1) = Inr m \<Longrightarrow>
   result (gen_gptable good_env g sg guid) = Inr ()"
  by (simp add: gen_gptable_def write_file_good Let_def)

lemma default_guid_length: "length (ms_guid main_init) = 16"
  by (simp add: main_init_def GUID_INIT_def)

lemma gptable_loop_out:
  "gptable_loop g guid i ps st = Inr st' \<Longrightarrow> \<exists>sfx. gs_out st' = gs_out st @ sfx"
proof (induction ps arbitrary: i st)
  case Nil
  then show ?case by simp
next
  case (Cons p ps)
  from Cons.prems show ?case
  proof (cases rule: gptable_loop_Cons)
    case skip
    then show ?thesis using Cons.IH by simp
  next
    case (step st1)
    from step(2) obtain a b where "gs_out st1 = gs_out st @ [a, b]"
      by (auto simp: gptable_step_def Let_def bind_err_eq_Inr split: if_splits)
    with Cons.IH [OF step(3)] show ?thesis by auto
  qed
qed

lemma gptable_first_line:
  assumes "gptable_loop g guid 0 (p # ps) gptable_init = Inr st" and "p_size p \<noteq> 0"
    and "(if kb_align g \<noteq> 0 then round_to_kb g (scast (sectors g)) else Inr (scast (sectors g)))
           = Inr r"
  shows "hd (gs_out st) = sint (r * 512)"
  using assms(1)
proof (cases rule: gptable_loop_Cons)
  case skip
  with assms(2) show ?thesis by simp
next
  case (step st1)
  from step(2) assms(3) obtain b where "gs_out st1 = [sint (r * 512), b]"
    by (auto simp: gptable_step_def gptable_init_def Let_def bind_err_eq_Inr split: if_splits)
  with gptable_loop_out [OF step(3)] show ?thesis by auto
qed





section \<open>The entries of the two tables\<close>

lemma gpt_bios_slot:
  assumes "result (gen_gptable e g sg guid) = Inr ()" and "length guid = 16"
  shows "\<exists>r. (if kb_align g \<noteq> 0 then round_to_kb g (scast (sectors g))
               else Inr (scast (sectors g))) = Inr r
     \<and> entry_type (slot 128 127 (gpt_entries (gen_gptable e g sg guid))) = GPT_PARTITION_BIOS
     \<and> entry_start_lba (slot 128 127 (gpt_entries (gen_gptable e g sg guid))) = 34
     \<and> entry_end_lba (slot 128 127 (gpt_entries (gen_gptable e g sg guid))) = r - 1
     \<and> gpt_backup_entries (gen_gptable e g sg guid) = gpt_entries (gen_gptable e g sg guid)
     \<and> (\<forall>p ps. parts g = p # ps \<and> p_size p \<noteq> 0 \<longrightarrow>
           hd (printed (gen_gptable e g sg guid)) = sint (r * 512))"
  using assms
proof (rule gen_gptable_written)
  fix st bios ents
  assume l: "gptable_loop g guid 0 (parts g) gptable_init = Inr st"
    and b: "bios_entry g guid (gs_gpte st ! (GPT_ENTRY_NUM - 1)) = Inr bios"
    and p: "printed (gen_gptable e g sg guid) = gs_out st"
    and w: "gpt_entries (gen_gptable e g sg guid) = ents"
      "gpt_backup_entries (gen_gptable e g sg guid) = ents"
    and sl: "\<And>k. k < GPT_ENTRY_NUM \<Longrightarrow>
        slot 128 k ents = gpte_bytes (((gs_gpte st)[GPT_ENTRY_NUM - 1 := bios]) ! k)"
    and wf: "\<And>k. k < GPT_ENTRY_NUM \<Longrightarrow> gpte_wf (((gs_gpte st)[GPT_ENTRY_NUM - 1 := bios]) ! k)"
  have len: "length (gs_gpte st) = GPT_ENTRY_NUM"
    using gptable_loop_entry(1) [OF l, of 0] by (simp add: GPT_ENTRY_NUM_def)
  from b obtain r where
    r: "(if kb_align g \<noteq> 0 then round_to_kb g (scast (sectors g)) else Inr (scast (sectors g)))
       = Inr r"
    and bios: "bios = (gs_gpte st ! (GPT_ENTRY_NUM - 1))
              \<lparr>gpte_start := 34, gpte_end := r - 1, gpte_type := GPT_PARTITION_BIOS,
               gpte_guid := guid[15 := guid ! 15 + 128]\<rparr>"
    by (rule bios_entry_ok)
  have s127: "slot 128 127 ents = gpte_bytes bios" "gpte_wf bios"
    using sl [of 127] wf [of 127] len by (simp_all add: GPT_ENTRY_NUM_def)
  have first: "hd (printed (gen_gptable e g sg guid)) = sint (r * 512)"
    if "parts g = p # ps" "p_size p \<noteq> 0" for p ps
    using gptable_first_line [of g guid p ps st r] l that r p by simp
  show ?thesis
    using r w s127 first entry_fields [OF s127(2)]
    by (intro exI [of _ r]) (simp add: bios)
qed


lemma legacy_slots:
  assumes ok: "result (gen_ptable e g sg) = Inr ()" and k: "k < 4"
  shows "(k < length (parts g) \<and> p_size (parts g ! k) \<noteq> 0 \<longrightarrow>
           (\<exists>st1 st2. ptable_step g k (parts g ! k) st1 = Inr st2
              \<and> slot 16 k (mbr_table (gen_ptable e g sg)) = pte_bytes (ps_pte st2 ! k))
           \<and> slot 16 k (mbr_table (gen_ptable e g sg)) ! 4 = ucast (p_type (parts g ! k))
           \<and> slot 16 k (mbr_table (gen_ptable e g sg)) ! 0
               = (if word_of_nat (k + 1) = active g then 0x80 else 0))
    \<and> (\<not> (k < length (parts g) \<and> p_size (parts g ! k) \<noteq> 0) \<longrightarrow>
           slot 16 k (mbr_table (gen_ptable e g sg)) = replicate 16 0)"
  using ok
proof (rule gen_ptable_written)
  fix st
  assume l: "ptable_loop g 0 (parts g) ptable_init = Inr st"
    and w: "mbr_table (gen_ptable e g sg) = concat (map pte_bytes (ps_pte st))"
    and sl: "\<And>k. k < 4 \<Longrightarrow>
               slot 16 k (concat (map pte_bytes (ps_pte st))) = pte_bytes (ps_pte st ! k)"
  have s: "slot 16 k (mbr_table (gen_ptable e g sg)) = pte_bytes (ps_pte st ! k)"
    using sl [OF k] by (simp add: w)
  have z: "slot 16 k (mbr_table (gen_ptable e g sg)) = replicate 16 0"
    if "\<not> (k < length (parts g) \<and> p_size (parts g ! k) \<noteq> 0)"
    using ptable_loop_entry(3) [OF l k that] by (simp add: s pte_bytes_zero)
  have r: "(\<exists>st1 st2. ptable_step g k (parts g ! k) st1 = Inr st2
              \<and> slot 16 k (mbr_table (gen_ptable e g sg)) = pte_bytes (ps_pte st2 ! k))
           \<and> slot 16 k (mbr_table (gen_ptable e g sg)) ! 4 = ucast (p_type (parts g ! k))
           \<and> slot 16 k (mbr_table (gen_ptable e g sg)) ! 0
               = (if word_of_nat (k + 1) = active g then 0x80 else 0)"
    if "k < length (parts g) \<and> p_size (parts g ! k) \<noteq> 0"
  proof -
    from that ptable_loop_entry(2) [OF l k] obtain st1 st2
      where st: "ptable_step g k (parts g ! k) st1 = Inr st2" "length (ps_pte st1) = 4"
        "ps_pte st ! k = ps_pte st2 ! k"
      by blast
    from st k have "k < length (ps_pte st1)" by simp
    note E = ptable_step_entry [OF st(1) this]
    from st E show ?thesis
      by (auto simp: s pte_bytes_fields)
  qed
  from z r show ?thesis by blast
qed

lemma gpt_slots:
  assumes ok: "result (gen_gptable e g sg guid) = Inr ()" and guid: "length guid = 16"
    and k: "k < 127"
  shows "(k < length (parts g) \<and> p_size (parts g ! k) \<noteq> 0 \<longrightarrow>
           entry_type (slot 128 k (gpt_entries (gen_gptable e g sg guid)))
             = (if p_type (parts g ! k) = 0xEF \<or> word_of_nat (k + 1) = active g
                then GPT_PARTITION_ESP else GPT_PARTITION_DATA)
           \<and> entry_guid (slot 128 k (gpt_entries (gen_gptable e g sg guid)))
               = guid[15 := guid ! 15 + word_of_nat (k + 1)])
    \<and> (\<not> (k < length (parts g) \<and> p_size (parts g ! k) \<noteq> 0) \<longrightarrow>
           slot 128 k (gpt_entries (gen_gptable e g sg guid)) = replicate 128 0)"
  using ok guid
proof (rule gen_gptable_written)
  fix st bios ents
  assume l: "gptable_loop g guid 0 (parts g) gptable_init = Inr st"
    and w: "gpt_entries (gen_gptable e g sg guid) = ents"
    and sl: "\<And>k. k < GPT_ENTRY_NUM \<Longrightarrow>
        slot 128 k ents = gpte_bytes (((gs_gpte st)[GPT_ENTRY_NUM - 1 := bios]) ! k)"
    and wf: "\<And>k. k < GPT_ENTRY_NUM \<Longrightarrow> gpte_wf (((gs_gpte st)[GPT_ENTRY_NUM - 1 := bios]) ! k)"
  from k have k': "k < GPT_ENTRY_NUM" "k \<noteq> GPT_ENTRY_NUM - 1" by (simp_all add: GPT_ENTRY_NUM_def)
  have s: "slot 128 k (gpt_entries (gen_gptable e g sg guid)) = gpte_bytes (gs_gpte st ! k)"
    and wfk: "gpte_wf (gs_gpte st ! k)"
    using sl [OF k'(1)] wf [OF k'(1)] k'(2) by (simp_all add: w)
  have z: "slot 128 k (gpt_entries (gen_gptable e g sg guid)) = replicate 128 0"
    if "\<not> (k < length (parts g) \<and> p_size (parts g ! k) \<noteq> 0)"
    using gptable_loop_entry(3) [OF l k'(1) that] by (simp add: s gpte_bytes_zero)
  have r: "entry_type (slot 128 k (gpt_entries (gen_gptable e g sg guid)))
             = (if p_type (parts g ! k) = 0xEF \<or> word_of_nat (k + 1) = active g
                then GPT_PARTITION_ESP else GPT_PARTITION_DATA)
           \<and> entry_guid (slot 128 k (gpt_entries (gen_gptable e g sg guid)))
               = guid[15 := guid ! 15 + word_of_nat (k + 1)]"
    if "k < length (parts g) \<and> p_size (parts g ! k) \<noteq> 0"
  proof -
    from that gptable_loop_entry(2) [OF l k'(1)]
    have eq: "gs_gpte st ! k = (gs_gpte st ! k)
             \<lparr>gpte_type := (if p_type (parts g ! k) = 0xEF \<or> word_of_nat (k + 1) = active g
                             then GPT_PARTITION_ESP else GPT_PARTITION_DATA),
              gpte_guid := guid[15 := guid ! 15 + word_of_nat (k + 1)],
              gpte_attr := 0, gpte_name := replicate 36 0\<rparr>"
      by blast
    have "gpte_type (gs_gpte st ! k) = (if p_type (parts g ! k) = 0xEF \<or> word_of_nat (k + 1) = active g
                             then GPT_PARTITION_ESP else GPT_PARTITION_DATA)"
      and "gpte_guid (gs_gpte st ! k) = guid[15 := guid ! 15 + word_of_nat (k + 1)]"
      by (subst eq, simp)+
    then show ?thesis
      using entry_fields(1) [OF wfk] entry_guid_field [OF wfk] by (simp add: s)
  qed
  from z r show ?thesis by blast
qed


lemma example_ptable_loop:
  "\<exists>st. ptable_loop (example_config\<lparr>active := a\<rparr>) 0 (parts example_config) ptable_init = Inr st
        \<and> ps_out st = [63 * 512, 2961 * 512, 3087 * 512, 4977 * 512]"
  apply (simp add: example_config_def ptable_init_def ptable_step_def round_to_cyl_def
      div_traps_def c_mod_def signed_modulo_int_def)
  apply (simp add: to_chs_def div_traps_def c_mod_def c_div_def signed_modulo_int_def
      signed_divide_int_def)
  apply (simp add: ptable_step_def round_to_cyl_def div_traps_def c_mod_def
      signed_modulo_int_def)
  apply (simp add: to_chs_def div_traps_def c_mod_def c_div_def signed_modulo_int_def
      signed_divide_int_def)
  done

lemma example_gptable_loop:
  "\<exists>st. gptable_loop (example_config\<lparr>active := a\<rparr>) guid 0 (parts example_config) gptable_init
          = Inr st
        \<and> gs_sect st = 8064
        \<and> gs_out st = [63 * 512, 2961 * 512, 3087 * 512, 4977 * 512]"
  by (simp add: example_config_def gptable_init_def gptable_step_def round_to_cyl_def
      div_traps_def c_mod_def signed_modulo_int_def GPT_ENTRY_NUM_def)

lemma example_bios_entry:
  "\<exists>b. bios_entry (example_config\<lparr>active := a\<rparr>) guid x = Inr b"
  by (simp add: bios_entry_def example_config_def)

lemma example_protective_pte:
  "\<exists>m. protective_pte good_env (example_config\<lparr>active := a\<rparr>)
         (8064 + scast (sectors example_config) - 1) = Inr m"
  by (simp add: protective_pte_def example_config_def to_chs_def div_traps_def c_mod_def c_div_def
      signed_modulo_int_def signed_divide_int_def)

lemma example_ptable_ok:
  "result (gen_ptable good_env (example_config\<lparr>active := a\<rparr>) sg) = Inr ()"
proof -
  from example_ptable_loop [of a] obtain st
    where "ptable_loop (example_config\<lparr>active := a\<rparr>) 0
             (parts (example_config\<lparr>active := a\<rparr>)) ptable_init = Inr st"
    by auto
  then show ?thesis by (rule gen_ptable_good)
qed

lemma example_gptable_ok:
  "result (gen_gptable good_env (example_config\<lparr>active := a\<rparr>) sg guid) = Inr ()"
proof -
  from example_gptable_loop [of a guid] obtain st
    where l: "gptable_loop (example_config\<lparr>active := a\<rparr>) guid 0
                (parts (example_config\<lparr>active := a\<rparr>)) gptable_init = Inr st"
      and s: "gs_sect st = 8064" by auto
  from example_bios_entry obtain b
    where b: "bios_entry (example_config\<lparr>active := a\<rparr>) guid (gs_gpte st ! (GPT_ENTRY_NUM - 1))
              = Inr b" by blast
  from example_protective_pte [of a] s obtain m
    where "protective_pte good_env (example_config\<lparr>active := a\<rparr>)
             (gs_sect st + scast (sectors (example_config\<lparr>active := a\<rparr>)) - 1) = Inr m"
    by auto
  with l b show ?thesis by (rule gen_gptable_good)
qed

lemma example_config_active: "example_config\<lparr>active := 1\<rparr> = example_config"
  by (simp add: example_config_def)










text \<open>
  C10: both generators compare the configured active slot with the index of the request
  plus one. In an image that \<^verbatim>\<open>gen_ptable\<close> completes, the active byte of slot \<open>k\<close> is
  \<^verbatim>\<open>0x80\<close> exactly if request \<open>k\<close> is retained and \<open>k + 1\<close> is the active slot, however
  many requests before it were skipped. In an image that \<^verbatim>\<open>gen_gptable\<close> completes, the
  type of the entry of a retained request \<open>k\<close> (below the last slot, which is the BIOS
  boot entry) is the EFI system partition exactly if the type of the request is
  \<^verbatim>\<open>0xEF\<close> or \<open>k + 1\<close> is the active slot, and the basic data partition otherwise.
\<close>

theorem active_compares_request_index:
  "(result (gen_ptable e g sg) = Inr () \<longrightarrow>
      (\<forall>k<4. slot 16 k (mbr_table (gen_ptable e g sg)) ! 0
         = (if k < length (parts g) \<and> p_size (parts g ! k) \<noteq> 0 \<and> word_of_nat (k + 1) = active g
            then 0x80 else 0)))
   \<and> (result (gen_gptable e g sg guid) = Inr () \<and> length guid = 16 \<longrightarrow>
      (\<forall>k<127. k < length (parts g) \<and> p_size (parts g ! k) \<noteq> 0 \<longrightarrow>
         entry_type (slot 128 k (gpt_entries (gen_gptable e g sg guid)))
           = (if p_type (parts g ! k) = 0xEF \<or> word_of_nat (k + 1) = active g
              then GPT_PARTITION_ESP else GPT_PARTITION_DATA)))"
proof (intro conjI impI allI)
  fix k :: nat
  assume "result (gen_ptable e g sg) = Inr ()" "k < 4"
  from legacy_slots [OF this]
  show "slot 16 k (mbr_table (gen_ptable e g sg)) ! 0
         = (if k < length (parts g) \<and> p_size (parts g ! k) \<noteq> 0 \<and> word_of_nat (k + 1) = active g
            then 0x80 else 0)"
    by (cases "k < length (parts g) \<and> p_size (parts g ! k) \<noteq> 0") auto
next
  fix k :: nat
  assume "result (gen_gptable e g sg guid) = Inr () \<and> length guid = 16" "k < 127"
    "k < length (parts g) \<and> p_size (parts g ! k) \<noteq> 0"
  then show "entry_type (slot 128 k (gpt_entries (gen_gptable e g sg guid)))
           = (if p_type (parts g ! k) = 0xEF \<or> word_of_nat (k + 1) = active g
              then GPT_PARTITION_ESP else GPT_PARTITION_DATA)"
    using gpt_slots [of e g sg guid k] by blast
qed

theorem active_compares_request_index_witness:
  "result (gen_ptable good_env (example_config\<lparr>active := 3\<rparr>) (ms_signature main_init)) = Inr ()
   \<and> p_size (parts example_config ! 1) = 0
   \<and> slot 16 0 (mbr_table (gen_ptable good_env (example_config\<lparr>active := 3\<rparr>)
        (ms_signature main_init))) ! 0 = 0
   \<and> slot 16 1 (mbr_table (gen_ptable good_env (example_config\<lparr>active := 3\<rparr>)
        (ms_signature main_init))) ! 0 = 0
   \<and> slot 16 2 (mbr_table (gen_ptable good_env (example_config\<lparr>active := 3\<rparr>)
        (ms_signature main_init))) ! 0 = 0x80
   \<and> result (gen_gptable good_env (example_config\<lparr>active := 3\<rparr>) (ms_signature main_init)
        (ms_guid main_init)) = Inr ()
   \<and> length (ms_guid main_init) = 16
   \<and> entry_type (slot 128 0 (gpt_entries (gen_gptable good_env (example_config\<lparr>active := 3\<rparr>)
        (ms_signature main_init) (ms_guid main_init)))) = GPT_PARTITION_DATA
   \<and> entry_type (slot 128 2 (gpt_entries (gen_gptable good_env (example_config\<lparr>active := 3\<rparr>)
        (ms_signature main_init) (ms_guid main_init)))) = GPT_PARTITION_ESP"
proof -
  let ?c = "example_config\<lparr>active := 3\<rparr>"
  let ?P = "gen_ptable good_env ?c (ms_signature main_init)"
  let ?G = "gen_gptable good_env ?c (ms_signature main_init) (ms_guid main_init)"
  have okp: "result ?P = Inr ()" by (rule example_ptable_ok)
  have okg: "result ?G = Inr ()" by (rule example_gptable_ok)
  note T = active_compares_request_index [of good_env ?c "ms_signature main_init"
      "ms_guid main_init"]
  from T okp have L: "\<And>k. k < 4 \<Longrightarrow> slot 16 k (mbr_table ?P) ! 0
         = (if k < length (parts ?c) \<and> p_size (parts ?c ! k) \<noteq> 0 \<and> word_of_nat (k + 1) = active ?c
            then 0x80 else 0)"
    by blast
  from T okg default_guid_length have G: "\<And>k. k < 127 \<Longrightarrow>
         k < length (parts ?c) \<and> p_size (parts ?c ! k) \<noteq> 0 \<Longrightarrow>
         entry_type (slot 128 k (gpt_entries ?G))
           = (if p_type (parts ?c ! k) = 0xEF \<or> word_of_nat (k + 1) = active ?c
              then GPT_PARTITION_ESP else GPT_PARTITION_DATA)"
    by blast
  have p: "p_size (parts example_config ! 1) = 0" by (simp add: example_config_def)
  from L [of 0] L [of 1] L [of 2] G [of 0] G [of 2] p okp okg default_guid_length
  show ?thesis by (simp add: example_config_def)
qed

section \<open>Requests of size 0 and the number of requests\<close>

lemma sint_scast_int: "sint (scast (w :: 32 word) :: 64 word) = sint w"
  by (rule sint_up_scast) (simp add: is_up)

lemma no_trap_pos: "0 < sint (w :: 32 word) \<Longrightarrow> \<not> div_traps x (scast w :: 64 word)"
proof
  assume p: "0 < sint w" and "div_traps x (scast w :: 64 word)"
  then have "(scast w :: 64 word) = 0 \<or> (scast w :: 64 word) = - 1"
    by (auto simp: div_traps_def)
  then have "sint (scast w :: 64 word) = 0 \<or> sint (scast w :: 64 word) = - 1" by auto
  with p show False by (simp add: sint_scast_int)
qed

lemma to_chs_ok:
  "valid_geometry g \<Longrightarrow> \<exists>cs. to_chs g s = Inr cs"
  by (simp add: to_chs_def valid_geometry_def no_trap_pos Let_def)

lemma round_to_cyl_ok:
  "valid_geometry g \<Longrightarrow> \<exists>r. round_to_cyl g s = Inr r"
  by (simp add: round_to_cyl_def valid_geometry_def no_trap_pos Let_def)

lemma round_to_kb_ok:
  assumes "valid_geometry g" "kb_align g \<noteq> 0"
  shows "\<exists>r. round_to_kb g s = Inr r"
proof -
  from assms have "sint (kb_align g) \<noteq> 0" by (metis sint_0 signed_eq_0_iff)
  with assms have "0 < sint (kb_align g)" by (simp add: valid_geometry_def)
  then show ?thesis by (simp add: round_to_kb_def no_trap_pos)
qed

lemma ptable_step_ok:
  assumes "valid_geometry g" "i < 4"
  shows "\<exists>st'. ptable_step g i p st = Inr st'"
proof -
  obtain r where r: "(if kb_align g \<noteq> 0
        then round_to_kb g (scast (ucast (ps_sect st + scast (sectors g)) :: 32 word))
        else Inr (scast (ucast (ps_sect st + scast (sectors g)) :: 32 word))) = Inr r"
    using round_to_kb_ok [OF assms(1)] by (cases "kb_align g = 0") auto
  obtain s2 where s2: "(if kb_align g = 0
        then round_to_cyl g (scast (ucast r :: 32 word) + p_size p * 2)
        else Inr (scast (ucast r :: 32 word) + p_size p * 2)) = Inr s2"
    using round_to_cyl_ok [OF assms(1)] by (cases "kb_align g = 0") auto
  obtain cs where cs: "to_chs g (scast (ucast r :: 32 word)) = Inr cs"
    using to_chs_ok [OF assms(1)] by blast
  obtain ce where ce: "to_chs g (scast ((ucast r :: 32 word)
        + ucast (s2 - scast (ucast r :: 32 word)) - 1)) = Inr ce"
    using to_chs_ok [OF assms(1)] by blast
  show ?thesis
    using assms(2) r s2 cs ce by (simp add: ptable_step_def Let_def)
qed

lemma gptable_step_ok:
  assumes "valid_geometry g" "i < GPT_ENTRY_NUM"
  shows "\<exists>st'. gptable_step g guid i p st = Inr st'"
proof -
  obtain r where r: "(if kb_align g \<noteq> 0 then round_to_kb g (gs_sect st + scast (sectors g))
        else Inr (gs_sect st + scast (sectors g))) = Inr r"
    using round_to_kb_ok [OF assms(1)] by (cases "kb_align g = 0") auto
  obtain s2 where s2: "(if kb_align g = 0 then round_to_cyl g (r + p_size p * 2)
        else Inr (r + p_size p * 2)) = Inr s2"
    using round_to_cyl_ok [OF assms(1)] by (cases "kb_align g = 0") auto
  show ?thesis
    using assms(2) r s2 by (simp add: gptable_step_def Let_def)
qed

text \<open>Without \<^verbatim>\<open>-n\<close>, a request of size 0 ends the loop with an error.\<close>

lemma ptable_loop_zero_fails:
  "\<not> ignore_null_sized_partition g \<Longrightarrow> \<exists>p\<in>set ps. p_size p = 0 \<Longrightarrow>
     \<exists>err. ptable_loop g i ps st = Inl err"
proof (induction ps arbitrary: i st)
  case Nil
  then show ?case by simp
next
  case (Cons p ps)
  show ?case
  proof (cases "p_size p = 0")
    case True
    with Cons.prems(1) show ?thesis by simp
  next
    case False
    with Cons.prems(2) have "\<exists>p\<in>set ps. p_size p = 0" by auto
    from Cons.IH [OF Cons.prems(1) this] False show ?thesis
      by (cases "ptable_step g i p st") auto
  qed
qed

lemma gptable_loop_zero_fails:
  "\<not> ignore_null_sized_partition g \<Longrightarrow> \<exists>p\<in>set ps. p_size p = 0 \<Longrightarrow>
     \<exists>err. gptable_loop g guid i ps st = Inl err"
proof (induction ps arbitrary: i st)
  case Nil
  then show ?case by simp
next
  case (Cons p ps)
  show ?case
  proof (cases "p_size p = 0")
    case True
    with Cons.prems(1) show ?thesis by simp
  next
    case False
    with Cons.prems(2) have "\<exists>p\<in>set ps. p_size p = 0" by auto
    from Cons.IH [OF Cons.prems(1) this] False show ?thesis
      by (cases "gptable_step g guid i p st") auto
  qed
qed

lemma ptable_loop_first_zero:
  assumes "valid_geometry g" "\<not> ignore_null_sized_partition g"
  shows "j < length ps \<Longrightarrow> p_size (ps ! j) = 0 \<Longrightarrow> (\<forall>m<j. p_size (ps ! m) \<noteq> 0) \<Longrightarrow>
         i + j \<le> 4 \<Longrightarrow> \<exists>out. ptable_loop g i ps st = Inl (InvalidSize (i + j), out)"
proof (induction ps arbitrary: i j st)
  case Nil
  then show ?case by simp
next
  case (Cons p ps)
  show ?case
  proof (cases j)
    case 0
    with Cons.prems assms(2) show ?thesis by simp
  next
    case (Suc j')
    with Cons.prems have nz: "p_size p \<noteq> 0" and i: "i < 4" by auto
    from ptable_step_ok [OF assms(1) i] obtain st1 where s: "ptable_step g i p st = Inr st1"
      by blast
    from Cons.prems Suc have "j' < length ps" "p_size (ps ! j') = 0"
      "\<forall>m<j'. p_size (ps ! m) \<noteq> 0" "Suc i + j' \<le> 4"
      by auto
    from Cons.IH [OF this, of st1] nz s Suc show ?thesis by simp
  qed
qed

lemma gptable_loop_first_zero:
  assumes "valid_geometry g" "\<not> ignore_null_sized_partition g"
  shows "j < length ps \<Longrightarrow> p_size (ps ! j) = 0 \<Longrightarrow> (\<forall>m<j. p_size (ps ! m) \<noteq> 0) \<Longrightarrow>
         i + j \<le> GPT_ENTRY_NUM \<Longrightarrow>
         \<exists>out. gptable_loop g guid i ps st = Inl (InvalidSize (i + j), out)"
proof (induction ps arbitrary: i j st)
  case Nil
  then show ?case by simp
next
  case (Cons p ps)
  show ?case
  proof (cases j)
    case 0
    with Cons.prems assms(2) show ?thesis by simp
  next
    case (Suc j')
    with Cons.prems have nz: "p_size p \<noteq> 0" and i: "i < GPT_ENTRY_NUM" by auto
    from gptable_step_ok [OF assms(1) i] obtain st1
      where s: "gptable_step g guid i p st = Inr st1"
      by blast
    from Cons.prems Suc have "j' < length ps" "p_size (ps ! j') = 0"
      "\<forall>m<j'. p_size (ps ! m) \<noteq> 0" "Suc i + j' \<le> GPT_ENTRY_NUM"
      by auto
    from Cons.IH [OF this, of st1] nz s Suc show ?thesis by simp
  qed
qed

lemma gen_ptable_loop_error:
  "ptable_loop g 0 (parts g) ptable_init = Inl (err, out) \<Longrightarrow>
     gen_ptable e g sg = \<lparr>printed = out, sink = [], result = Inl err\<rparr>"
  by (simp add: gen_ptable_def)

lemma gen_gptable_loop_error:
  "gptable_loop g guid 0 (parts g) gptable_init = Inl (err, out) \<Longrightarrow>
     gen_gptable e g sg guid = \<lparr>printed = out, sink = [], result = Inl err\<rparr>"
  by (simp add: gen_gptable_def)

text \<open>
  C8: when a request has size 0 and \<^verbatim>\<open>-n\<close> is not given, both generators fail and never
  open, let alone write, the output file. The error is \<open>InvalidSize\<close> with the index of
  the request, the first of size 0, provided that the requests before it could be laid
  out: the geometry is valid (heads, sectors and their product are positive \<^verbatim>\<open>int\<close>s,
  the alignment is not negative, so that no division traps) and the requests fit the
  arrays \<^verbatim>\<open>pte[4]\<close> and \<^verbatim>\<open>gpte[128]\<close>.
\<close>

theorem zero_size_aborts:
  assumes "\<not> ignore_null_sized_partition g" and "i < length (parts g)"
    and "p_size (parts g ! i) = 0"
  shows "sink (gen_ptable e g sg) = [] \<and> result (gen_ptable e g sg) \<noteq> Inr ()
    \<and> sink (gen_gptable e g sg guid) = [] \<and> result (gen_gptable e g sg guid) \<noteq> Inr ()
    \<and> (valid_geometry g \<and> (\<forall>j<i. p_size (parts g ! j) \<noteq> 0) \<longrightarrow>
         (length (parts g) \<le> 4 \<longrightarrow> result (gen_ptable e g sg) = Inl (InvalidSize i))
       \<and> (length (parts g) \<le> 128 \<longrightarrow> result (gen_gptable e g sg guid) = Inl (InvalidSize i)))"
proof -
  from assms(2,3) have z: "\<exists>p\<in>set (parts g). p_size p = 0"
    using nth_mem by blast
  from ptable_loop_zero_fails [OF assms(1) z] obtain err out
    where "ptable_loop g 0 (parts g) ptable_init = Inl (err, out)" by fastforce
  from gen_ptable_loop_error [OF this]
  have a: "sink (gen_ptable e g sg) = [] \<and> result (gen_ptable e g sg) \<noteq> Inr ()" by simp
  from gptable_loop_zero_fails [OF assms(1) z] obtain err' out'
    where "gptable_loop g guid 0 (parts g) gptable_init = Inl (err', out')" by fastforce
  from gen_gptable_loop_error [OF this]
  have b: "sink (gen_gptable e g sg guid) = [] \<and> result (gen_gptable e g sg guid) \<noteq> Inr ()"
    by simp
  have c: "result (gen_ptable e g sg) = Inl (InvalidSize i)"
    if "valid_geometry g" "\<forall>j<i. p_size (parts g ! j) \<noteq> 0" "length (parts g) \<le> 4"
  proof -
    from that assms(2) have "0 + i \<le> 4" by simp
    from ptable_loop_first_zero [OF that(1) assms(1) assms(2) assms(3) that(2) this]
    obtain out where "ptable_loop g 0 (parts g) ptable_init = Inl (InvalidSize i, out)" by auto
    from gen_ptable_loop_error [OF this] show ?thesis by simp
  qed
  have d: "result (gen_gptable e g sg guid) = Inl (InvalidSize i)"
    if "valid_geometry g" "\<forall>j<i. p_size (parts g ! j) \<noteq> 0" "length (parts g) \<le> 128"
  proof -
    from that assms(2) have "0 + i \<le> GPT_ENTRY_NUM" by (simp add: GPT_ENTRY_NUM_def)
    from gptable_loop_first_zero [OF that(1) assms(1) assms(2) assms(3) that(2) this]
    obtain out where "gptable_loop g guid 0 (parts g) gptable_init = Inl (InvalidSize i, out)"
      by auto
    from gen_gptable_loop_error [OF this] show ?thesis by simp
  qed
  from a b c d show ?thesis by blast
qed

lemma example_valid_geometry: "valid_geometry example_config" "valid_geometry no_skip_config"
  by (simp_all add: valid_geometry_def example_config_def no_skip_config_def)

theorem zero_size_aborts_witness:
  "\<not> ignore_null_sized_partition no_skip_config
   \<and> 1 < length (parts no_skip_config)
   \<and> p_size (parts no_skip_config ! 1) = 0
   \<and> valid_geometry no_skip_config
   \<and> p_size (parts no_skip_config ! 0) = 1024
   \<and> sink (gen_ptable good_env no_skip_config (ms_signature main_init)) = []
   \<and> result (gen_ptable good_env no_skip_config (ms_signature main_init)) = Inl (InvalidSize 1)
   \<and> sink (gen_gptable good_env no_skip_config (ms_signature main_init) (ms_guid main_init)) = []
   \<and> result (gen_gptable good_env no_skip_config (ms_signature main_init) (ms_guid main_init))
       = Inl (InvalidSize 1)"
proof -
  have h: "\<not> ignore_null_sized_partition no_skip_config" "1 < length (parts no_skip_config)"
    "p_size (parts no_skip_config ! 1) = 0"
    by (simp_all add: no_skip_config_def example_config_def)
  have f: "\<forall>j<1. p_size (parts no_skip_config ! j) \<noteq> 0" "length (parts no_skip_config) \<le> 4"
    "length (parts no_skip_config) \<le> 128" "p_size (parts no_skip_config ! 0) = 1024"
    by (simp_all add: no_skip_config_def example_config_def)
  from zero_size_aborts [OF h, of good_env "ms_signature main_init" "ms_guid main_init"]
    h f example_valid_geometry(2)
  show ?thesis by simp
qed

subsection \<open>The number of requests that main accepts\<close>

lemma handle_opt_p_limit:
  "(handle_opt m (Opt_p kb) = Inl TooManyPartitions)
   = ((if ms_use_guid_partition_table m then 128 else 4) \<le> length (parts (ms_config m)))"
  by (auto simp: GPT_ENTRY_NUM_def)

lemma handle_opts_p_replicate:
  "ms_use_guid_partition_table m \<Longrightarrow> length (parts (ms_config m)) + n \<le> 128 \<Longrightarrow>
     handle_opts m (replicate n (Opt_p kb))
       = Inr (m\<lparr>ms_config := (ms_config m)
               \<lparr>parts := parts (ms_config m)
                  @ replicate n \<lparr>p_size = kb, p_type = ucast (ms_type m)\<rparr>\<rparr>\<rparr>)"
proof (induction n arbitrary: m)
  case 0
  then show ?case by simp
next
  case (Suc n)
  let ?m = "m\<lparr>ms_config := (ms_config m)
               \<lparr>parts := parts (ms_config m) @ [\<lparr>p_size = kb, p_type = ucast (ms_type m)\<rparr>]\<rparr>\<rparr>"
  from Suc.prems have "handle_opt m (Opt_p kb) = Inr ?m"
    by (simp add: GPT_ENTRY_NUM_def)
  moreover from Suc.prems have "ms_use_guid_partition_table ?m"
    "length (parts (ms_config ?m)) + n \<le> 128" by simp_all
  note Suc.IH [OF this]
  ultimately show ?case by (simp add: replicate_app_Cons_same)
qed

lemma gptable_loop_ok:
  assumes "valid_geometry g"
  shows "i + length ps \<le> GPT_ENTRY_NUM \<Longrightarrow> (\<And>p. p \<in> set ps \<Longrightarrow> p_size p \<noteq> 0) \<Longrightarrow>
         \<exists>st'. gptable_loop g guid i ps st = Inr st'
              \<and> length (gs_out st') = length (gs_out st) + 2 * length ps"
proof (induction ps arbitrary: i st)
  case Nil
  then show ?case by simp
next
  case (Cons p ps)
  from Cons.prems have i: "i < GPT_ENTRY_NUM" and nz: "p_size p \<noteq> 0" by auto
  from gptable_step_ok [OF assms i] obtain st1 where s: "gptable_step g guid i p st = Inr st1"
    by blast
  then obtain a b where o: "gs_out st1 = gs_out st @ [a, b]"
    by (auto simp: gptable_step_def Let_def bind_err_eq_Inr split: if_splits)
  from Cons.prems have "Suc i + length ps \<le> GPT_ENTRY_NUM" "\<And>p. p \<in> set ps \<Longrightarrow> p_size p \<noteq> 0"
    by auto
  from Cons.IH [OF this, of st1] nz s o show ?case by auto
qed

lemma bios_entry_valid:
  "valid_geometry g \<Longrightarrow> \<exists>b. bios_entry g guid x = Inr b"
  using round_to_kb_ok [of g "scast (sectors g)"]
  by (cases "kb_align g = 0") (auto simp: bios_entry_def)

lemma protective_pte_valid:
  "valid_geometry g \<Longrightarrow> \<exists>m. protective_pte e g s = Inr m"
  using to_chs_ok [of g 1] to_chs_ok [of g s]
  by (auto simp: protective_pte_def)

lemma many_parts_accepted:
  "handle_opts main_init many_parts_opts
   = Inr (main_init\<lparr>ms_use_guid_partition_table := True, ms_filename := Some ''img'',
            ms_config := example_config\<lparr>ignore_null_sized_partition := False,
               parts := replicate 128 \<lparr>p_size = 1, p_type = 0x83\<rparr>\<rparr>\<rparr>)"
proof -
  let ?m = "main_init\<lparr>ms_use_guid_partition_table := True, ms_filename := Some ''img'',
            ms_config := example_config\<lparr>ignore_null_sized_partition := False, parts := []\<rparr>\<rparr>"
  have a: "handle_opts main_init [Opt_g, Opt_o ''img'', Opt_h 16, Opt_s 63] = Inr ?m"
    by (simp add: main_init_def example_config_def)
  have b: "handle_opts ?m (replicate 128 (Opt_p 1))
       = Inr (?m\<lparr>ms_config := (ms_config ?m)
               \<lparr>parts := parts (ms_config ?m)
                  @ replicate 128 \<lparr>p_size = 1, p_type = ucast (ms_type ?m)\<rparr>\<rparr>\<rparr>)"
    by (rule handle_opts_p_replicate) simp_all
  show ?thesis
    unfolding many_parts_opts_def handle_opts_append a bind_err_Inr b
    by (simp add: main_init_def)
qed

lemma many_parts_main:
  "main e many_parts_opts 0
   = gen_gptable e many_parts_config (ms_signature main_init) (ms_guid main_init)"
  by (simp add: main_def many_parts_accepted many_parts_config_def)
    (simp add: example_config_def main_init_def)

lemma many_parts_run:
  "result (gen_gptable good_env many_parts_config sg guid) = Inr ()
   \<and> length (printed (gen_gptable good_env many_parts_config sg guid)) = 256"
proof -
  have v: "valid_geometry many_parts_config"
    by (simp add: valid_geometry_def many_parts_config_def example_config_def)
  have "\<exists>st'. gptable_loop many_parts_config guid 0 (parts many_parts_config) gptable_init = Inr st'
          \<and> length (gs_out st') = length (gs_out gptable_init) + 2 * length (parts many_parts_config)"
    by (rule gptable_loop_ok [OF v])
      (simp_all add: many_parts_config_def GPT_ENTRY_NUM_def)
  then obtain st where l: "gptable_loop many_parts_config guid 0 (parts many_parts_config)
        gptable_init = Inr st"
    and n: "length (gs_out st) = 256"
    by (auto simp: many_parts_config_def gptable_init_def)
  from bios_entry_valid [OF v] obtain b
    where b: "bios_entry many_parts_config guid (gs_gpte st ! (GPT_ENTRY_NUM - 1)) = Inr b"
    by blast
  from protective_pte_valid [OF v] obtain m
    where m: "protective_pte good_env many_parts_config
                (gs_sect st + scast (sectors many_parts_config) - 1) = Inr m"
    by blast
  from l b m have ok: "result (gen_gptable good_env many_parts_config sg guid) = Inr ()"
    by (rule gen_gptable_good)
  from l b m have "printed (gen_gptable good_env many_parts_config sg guid) = gs_out st"
    by (simp add: gen_gptable_def Let_def write_file_def good_env_def split: prod.splits)
  with ok n show ?thesis by simp
qed

text \<open>
  C7 asks for at most 127 requests in GPT mode, slot 128 being reserved. The test in
  \<^verbatim>\<open>main\<close> is \<^verbatim>\<open>part > GPT_ENTRY_NUM - 1\<close>: a request is refused exactly when 4 are stored
  in legacy mode, but only when 128 are stored once \<^verbatim>\<open>-g\<close> was given. So
  \<^verbatim>\<open>-g -o img -h 16 -s 63\<close> followed by \<^verbatim>\<open>-p 1\<close> 128 times is accepted and the run
  returns 0: it prints two lines for each of the 128 requests, the last one included,
  and the slot of the last request holds the BIOS boot entry in its place.
\<close>

theorem gpt_mode_accepts_128_requests:
  "(handle_opt m (Opt_p kb) = Inl TooManyPartitions)
     = ((if ms_use_guid_partition_table m then 128 else 4) \<le> length (parts (ms_config m)))
   \<and> length (filter (\<lambda>x. x = Opt_p 1) many_parts_opts) = 128
   \<and> result (main good_env many_parts_opts 0) = Inr ()
   \<and> length (printed (main good_env many_parts_opts 0)) = 2 * 128
   \<and> entry_type (slot 128 127 (gpt_entries (main good_env many_parts_opts 0)))
       = GPT_PARTITION_BIOS"
proof -
  let ?R = "gen_gptable good_env many_parts_config (ms_signature main_init) (ms_guid main_init)"
  from many_parts_run [of "ms_signature main_init" "ms_guid main_init"]
  have ok: "result ?R = Inr ()" and n: "length (printed ?R) = 256" by simp_all
  from gpt_bios_slot [OF ok default_guid_length]
  have "entry_type (slot 128 127 (gpt_entries ?R)) = GPT_PARTITION_BIOS" by blast
  moreover have "length (filter (\<lambda>x. x = Opt_p 1) many_parts_opts) = 128"
    by (simp add: many_parts_opts_def)
  moreover note ok n handle_opt_p_limit [of m kb]
  ultimately show ?thesis
    unfolding many_parts_main by simp
qed

theorem gpt_mode_accepts_128_requests_witness:
  "handle_opt (main_init\<lparr>ms_use_guid_partition_table := True,
       ms_config := many_parts_config\<lparr>parts := replicate 127 \<lparr>p_size = 1, p_type = 0x83\<rparr>\<rparr>\<rparr>)
     (Opt_p 1) \<noteq> Inl TooManyPartitions
   \<and> result (main good_env many_parts_opts 0) = Inr ()
   \<and> length (printed (main good_env many_parts_opts 0)) = 256"
  using gpt_mode_accepts_128_requests
    [of "main_init\<lparr>ms_use_guid_partition_table := True,
       ms_config := many_parts_config\<lparr>parts := replicate 127 \<lparr>p_size = 1, p_type = 0x83\<rparr>\<rparr>\<rparr>" 1]
  by (simp del: handle_opt.simps)

section \<open>Partitions that do not overlap\<close>

text \<open>
  The sector arithmetic of both loops on machine integers agrees with the arithmetic on
  unbounded integers as long as no value leaves the range of its C type. The lemmas below
  carry a word as \<open>word_of_int k\<close> for a small non-negative \<open>k\<close>.
\<close>

lemma sint_woi: "0 \<le> k \<Longrightarrow> k < 2 ^ (LENGTH('a) - 1) \<Longrightarrow> sint (word_of_int k :: 'a::len word) = k"
  by (simp add: signed_of_int signed_take_bit_int_eq_self)

lemma uint_woi: "0 \<le> k \<Longrightarrow> k < 2 ^ LENGTH('a) \<Longrightarrow> uint (word_of_int k :: 'a::len word) = k"
  by (simp add: unsigned_of_int take_bit_int_eq_self)

lemma scast_woi:
  assumes "0 \<le> k" "k < 2 ^ 31"
  shows "(scast (word_of_int k :: 32 word) :: 64 word) = word_of_int k"
proof -
  have "sint (word_of_int k :: 32 word) = k" using assms by (simp add: sint_woi)
  then show ?thesis by (simp add: scast_eq)
qed

lemma ucast_woi: "(ucast (word_of_int k :: 64 word) :: 32 word) = word_of_int k"
  by (rule bit_word_eqI) (auto simp: bit_simps)

lemma sdiv_nonneg: "0 \<le> a \<Longrightarrow> 0 \<le> b \<Longrightarrow> a sdiv b = a div (b :: int)"
  by (cases "b = 0"; cases "a = 0") (simp_all add: signed_divide_int_def sgn_if)

lemma c_div_woi:
  assumes "0 \<le> a" "a < 2 ^ 63" "0 \<le> b" "b < 2 ^ 63"
  shows "c_div (word_of_int a :: 64 word) (word_of_int b) = word_of_int (a div b)"
  using assms by (simp add: c_div_def sint_woi sdiv_nonneg)

lemma c_mod_woi:
  assumes "0 \<le> a" "a < 2 ^ 63" "0 \<le> b" "b < 2 ^ 63"
  shows "c_mod (word_of_int a :: 64 word) (word_of_int b) = word_of_int (a mod b)"
  using assms by (simp add: c_mod_def sint_woi smod_mod_positive)

lemma no_trap_woi:
  assumes "0 < b" "b < 2 ^ 63"
  shows "\<not> div_traps x (word_of_int b :: 64 word)"
proof
  assume "div_traps x (word_of_int b :: 64 word)"
  then have "(word_of_int b :: 64 word) = 0 \<or> (word_of_int b :: 64 word) = - 1"
    by (auto simp: div_traps_def)
  then have "sint (word_of_int b :: 64 word) = 0 \<or> sint (word_of_int b :: 64 word) = - 1" by auto
  with assms show False by (simp add: sint_woi)
qed

lemma aligned_start_bounds:
  assumes "0 \<le> sint (kb_align g)"
  shows "s + sint (sectors g) \<le> aligned_start g s"
    and "aligned_start g s \<le> s + sint (sectors g) + sint (kb_align g)"
proof -
  define kb where "kb = sint (kb_align g)"
  define n where "n = s + sint (sectors g) - 1"
  have "n + 1 \<le> (n div kb + 1) * kb \<and> (n div kb + 1) * kb \<le> n + kb" if "0 < kb"
  proof -
    have "(n div kb + 1) * kb = n - n mod kb + kb"
      by (simp add: algebra_simps minus_mod_eq_mult_div)
    moreover have "0 \<le> n mod kb" "n mod kb < kb" using that by simp_all
    ultimately show ?thesis by linarith
  qed
  then show "s + sint (sectors g) \<le> aligned_start g s"
    and "aligned_start g s \<le> s + sint (sectors g) + sint (kb_align g)"
    using assms by (auto simp: aligned_start_def kb_def n_def)
qed

lemma aligned_end_bounds:
  assumes "0 < sint (heads g) * sint (sectors g)"
  shows "a + 2 * z \<le> aligned_end g a z"
    and "aligned_end g a z \<le> a + 2 * z + sint (heads g) * sint (sectors g)"
proof -
  define c where "c = sint (heads g) * sint (sectors g)"
  have "0 \<le> (a + 2 * z) mod c" "(a + 2 * z) mod c < c" using assms by (simp_all add: c_def)
  then show "a + 2 * z \<le> aligned_end g a z"
    and "aligned_end g a z \<le> a + 2 * z + sint (heads g) * sint (sectors g)"
    by (auto simp: aligned_end_def c_def)
qed

lemma kb_align_zero_iff: "kb_align g = 0 \<longleftrightarrow> sint (kb_align g) = 0"
  by (metis sint_0 signed_eq_0_iff)

lemma round_to_kb_value:
  assumes "0 < sint (kb_align g)" "1 \<le> n" "n < 2 ^ 63"
  shows "round_to_kb g (word_of_int n)
           = Inr (word_of_int (((n - 1) div sint (kb_align g) + 1) * sint (kb_align g)))"
proof -
  define kb where "kb = sint (kb_align g)"
  have kb31: "kb < 2 ^ 31" unfolding kb_def using sint_lt [of "kb_align g"] by simp
  have kw: "(scast (kb_align g) :: 64 word) = word_of_int kb" unfolding kb_def by (rule scast_eq)
  have m1: "(word_of_int n :: 64 word) - 1 = word_of_int (n - 1)" by simp
  have d: "c_div (word_of_int (n - 1) :: 64 word) (word_of_int kb) = word_of_int ((n - 1) div kb)"
    using assms kb31 by (intro c_div_woi) (simp_all add: kb_def)
  have nt: "\<not> div_traps (word_of_int (n - 1) :: 64 word) (word_of_int kb)"
    using assms kb31 by (intro no_trap_woi) (simp_all add: kb_def)
  show ?thesis
    unfolding round_to_kb_def kw m1 kb_def [symmetric] using nt d by simp
qed

lemma round_to_cyl_value:
  assumes "0 < sint (heads g) * sint (sectors g)" "sint (heads g) * sint (sectors g) < 2 ^ 31"
    and "0 \<le> n" "n < 2 ^ 63"
  shows "round_to_cyl g (word_of_int n)
           = Inr (word_of_int (n + sint (heads g) * sint (sectors g)
                                 - n mod (sint (heads g) * sint (sectors g))))"
proof -
  define c where "c = sint (heads g) * sint (sectors g)"
  have cw: "heads g * sectors g = (word_of_int c :: 32 word)" by (simp add: c_def)
  have sw: "(scast (word_of_int c :: 32 word) :: 64 word) = word_of_int c"
    using assms by (intro scast_woi) (simp_all add: c_def)
  have d: "c_mod (word_of_int n :: 64 word) (word_of_int c) = word_of_int (n mod c)"
    using assms by (intro c_mod_woi) (simp_all add: c_def)
  have nt: "\<not> div_traps (word_of_int n :: 64 word) (word_of_int c)"
    using assms by (intro no_trap_woi) (simp_all add: c_def)
  show ?thesis
    unfolding round_to_cyl_def cw Let_def sw c_def [symmetric] using nt d by simp
qed

lemma gptable_step_shape:
  assumes "gptable_step g guid i p st = Inr st'"
  shows "\<exists>start sect2.
           (if kb_align g \<noteq> 0 then round_to_kb g (gs_sect st + scast (sectors g))
            else Inr (gs_sect st + scast (sectors g))) = Inr start \<and>
           (if kb_align g = 0 then round_to_cyl g (start + p_size p * 2)
            else Inr (start + p_size p * 2)) = Inr sect2 \<and>
           gs_sect st' = sect2 \<and>
           gs_out st' = gs_out st @ [sint (start * 512), sint ((sect2 - start) * 512)]"
  using assms
  by (auto simp: gptable_step_def Let_def bind_err_eq_Inr split: if_splits)

lemma ptable_step_shape:
  assumes "ptable_step g i p st = Inr st'"
  shows "\<exists>r sect2.
           (if kb_align g \<noteq> 0
            then round_to_kb g (scast (ucast (ps_sect st + scast (sectors g)) :: 32 word))
            else Inr (scast (ucast (ps_sect st + scast (sectors g)) :: 32 word))) = Inr r \<and>
           (if kb_align g = 0 then round_to_cyl g (scast (ucast r :: 32 word) + p_size p * 2)
            else Inr (scast (ucast r :: 32 word) + p_size p * 2)) = Inr sect2 \<and>
           ps_sect st' = sect2 \<and>
           ps_out st' = ps_out st @
             [sint ((scast (ucast r :: 32 word) :: 64 word) * 512),
              sint ((scast (ucast (sect2 - scast (ucast r :: 32 word)) :: 32 word) :: 64 word) * 512)]"
  using assms
  by (auto simp: ptable_step_def Let_def bind_err_eq_Inr split: if_splits)

lemma rounding_values:
  assumes geo: "0 < sint (heads g)" "0 < sint (sectors g)" "0 \<le> sint (kb_align g)"
      "sint (heads g) * sint (sectors g) < 2 ^ 31"
    and S: "0 \<le> S" and z: "0 \<le> z"
    and bound: "S + (sint (sectors g) + sint (kb_align g) + 2 * z
                      + sint (heads g) * sint (sectors g)) < 2 ^ 63"
  shows "(if kb_align g \<noteq> 0 then round_to_kb g (word_of_int (S + sint (sectors g)))
          else Inr (word_of_int (S + sint (sectors g)))) = Inr (word_of_int (aligned_start g S))"
    and "(if kb_align g = 0 then round_to_cyl g (word_of_int (aligned_start g S + 2 * z))
          else Inr (word_of_int (aligned_start g S + 2 * z)))
           = Inr (word_of_int (aligned_end g (aligned_start g S) z))"
proof -
  have cpos: "0 < sint (heads g) * sint (sectors g)" using geo by simp
  note A = aligned_start_bounds [OF geo(3), of S]
  show "(if kb_align g \<noteq> 0 then round_to_kb g (word_of_int (S + sint (sectors g)))
          else Inr (word_of_int (S + sint (sectors g)))) = Inr (word_of_int (aligned_start g S))"
  proof (cases "kb_align g = 0")
    case True
    then show ?thesis by (simp add: aligned_start_def)
  next
    case False
    then have "0 < sint (kb_align g)" using geo(3) by (simp add: kb_align_zero_iff)
    moreover have "1 \<le> S + sint (sectors g)" "S + sint (sectors g) < 2 ^ 63"
      using geo S z bound cpos by linarith+
    ultimately have "round_to_kb g (word_of_int (S + sint (sectors g)))
        = Inr (word_of_int (((S + sint (sectors g) - 1) div sint (kb_align g) + 1) * sint (kb_align g)))"
      by (rule round_to_kb_value)
    with False show ?thesis by (simp add: aligned_start_def kb_align_zero_iff)
  qed
  show "(if kb_align g = 0 then round_to_cyl g (word_of_int (aligned_start g S + 2 * z))
          else Inr (word_of_int (aligned_start g S + 2 * z)))
           = Inr (word_of_int (aligned_end g (aligned_start g S) z))"
  proof (cases "kb_align g = 0")
    case True
    have "0 \<le> aligned_start g S + 2 * z" "aligned_start g S + 2 * z < 2 ^ 63"
      using geo S z bound cpos A by linarith+
    with cpos geo(4) have "round_to_cyl g (word_of_int (aligned_start g S + 2 * z))
        = Inr (word_of_int (aligned_start g S + 2 * z + sint (heads g) * sint (sectors g)
                 - (aligned_start g S + 2 * z) mod (sint (heads g) * sint (sectors g))))"
      by (rule round_to_cyl_value)
    with True show ?thesis by (simp add: aligned_end_def)
  next
    case False
    then show ?thesis by (simp add: aligned_end_def kb_align_zero_iff)
  qed
qed

lemma gptable_step_plan:
  assumes step: "gptable_step g guid i p st = Inr st'"
    and geo: "0 < sint (heads g)" "0 < sint (sectors g)" "0 \<le> sint (kb_align g)"
      "sint (heads g) * sint (sectors g) < 2 ^ 31"
    and bound: "uint (gs_sect st) + request_demand g p < 2 ^ 54"
  shows "gs_out st' = gs_out st @
           [512 * aligned_start g (uint (gs_sect st)),
            512 * (aligned_end g (aligned_start g (uint (gs_sect st))) (uint (p_size p))
                     - aligned_start g (uint (gs_sect st)))]"
    and "uint (gs_sect st') = aligned_end g (aligned_start g (uint (gs_sect st))) (uint (p_size p))"
proof -
  define S where "S = uint (gs_sect st)"
  define z where "z = uint (p_size p)"
  define A where "A = aligned_start g S"
  define E where "E = aligned_end g A z"
  define sec where "sec = sint (sectors g)"
  define kb where "kb = sint (kb_align g)"
  define c where "c = sint (heads g) * sint (sectors g)"
  have S0: "0 \<le> S" and z0: "0 \<le> z" by (simp_all add: S_def z_def)
  have cpos: "0 < sint (heads g) * sint (sectors g)" using geo by simp
  have b: "S + (sint (sectors g) + sint (kb_align g) + 2 * z
                      + sint (heads g) * sint (sectors g)) < 2 ^ 54"
    using bound by (simp add: request_demand_def S_def z_def)
  then have b63: "S + (sint (sectors g) + sint (kb_align g) + 2 * z
                      + sint (heads g) * sint (sectors g)) < 2 ^ 63" by simp
  note A = aligned_start_bounds [OF geo(3), of S, folded A_def]
  note En = aligned_end_bounds [OF cpos, of A z, folded E_def]
  note rv = rounding_values [OF geo S0 z0 b63, folded A_def, folded E_def]
  have ar: "0 < sec" "0 \<le> kb" "0 < c" "S + sec \<le> A" "A \<le> S + sec + kb"
      "A + 2 * z \<le> E" "E \<le> A + 2 * z + c" "S + (sec + kb + 2 * z + c) < 2 ^ 54"
    using geo(2,3) cpos A En b unfolding sec_def kb_def c_def by blast+
  have sw: "gs_sect st = word_of_int S" by (simp add: S_def)
  have secw: "(scast (sectors g) :: 64 word) = word_of_int (sint (sectors g))" by (rule scast_eq)
  have zw: "p_size p = word_of_int z" by (simp add: z_def)
  have s0: "gs_sect st + scast (sectors g) = (word_of_int (S + sint (sectors g)) :: 64 word)"
    unfolding sw secw by simp
  from gptable_step_shape [OF step] obtain start sect2 where
    r1: "(if kb_align g \<noteq> 0 then round_to_kb g (gs_sect st + scast (sectors g))
            else Inr (gs_sect st + scast (sectors g))) = Inr start"
    and r2: "(if kb_align g = 0 then round_to_cyl g (start + p_size p * 2)
            else Inr (start + p_size p * 2)) = Inr sect2"
    and o1: "gs_sect st' = sect2"
    and o2: "gs_out st' = gs_out st @ [sint (start * 512), sint ((sect2 - start) * 512)]"
    by blast
  from r1 rv(1) have startA: "start = word_of_int A" unfolding s0 by simp
  have e0: "start + p_size p * 2 = word_of_int (A + 2 * z)" unfolding startA zw by simp
  from r2 rv(2) have sect2E: "sect2 = word_of_int E" unfolding e0 by simp
  have m1: "start * 512 = word_of_int (512 * A)" unfolding startA by simp
  have "sint (word_of_int (512 * A) :: 64 word) = 512 * A"
    using ar S0 z0 by (intro sint_woi) simp_all
  then have l1: "sint (start * 512) = 512 * A" unfolding m1 .
  have m2: "(sect2 - start) * 512 = word_of_int (512 * (E - A))" unfolding startA sect2E by simp
  have "sint (word_of_int (512 * (E - A)) :: 64 word) = 512 * (E - A)"
    using ar S0 z0 by (intro sint_woi) simp_all
  then have l2: "sint ((sect2 - start) * 512) = 512 * (E - A)" unfolding m2 .
  have "0 \<le> E" "E < 2 ^ 64" using ar S0 z0 by simp_all
  then have uE: "uint sect2 = E" unfolding sect2E by (simp add: uint_woi)
  show "gs_out st' = gs_out st @
           [512 * aligned_start g (uint (gs_sect st)),
            512 * (aligned_end g (aligned_start g (uint (gs_sect st))) (uint (p_size p))
                     - aligned_start g (uint (gs_sect st)))]"
    using o2 l1 l2 by (simp add: E_def A_def S_def z_def)
  show "uint (gs_sect st') = aligned_end g (aligned_start g (uint (gs_sect st))) (uint (p_size p))"
    using o1 uE by (simp add: E_def A_def S_def z_def)
qed

lemma ptable_step_plan:
  assumes step: "ptable_step g i p st = Inr st'"
    and geo: "0 < sint (heads g)" "0 < sint (sectors g)" "0 \<le> sint (kb_align g)"
      "sint (heads g) * sint (sectors g) < 2 ^ 31"
    and bound: "uint (ps_sect st) + request_demand g p < 2 ^ 31"
  shows "ps_out st' = ps_out st @
           [512 * aligned_start g (uint (ps_sect st)),
            512 * (aligned_end g (aligned_start g (uint (ps_sect st))) (uint (p_size p))
                     - aligned_start g (uint (ps_sect st)))]"
    and "uint (ps_sect st') = aligned_end g (aligned_start g (uint (ps_sect st))) (uint (p_size p))"
proof -
  define S where "S = uint (ps_sect st)"
  define z where "z = uint (p_size p)"
  define A where "A = aligned_start g S"
  define E where "E = aligned_end g A z"
  define sec where "sec = sint (sectors g)"
  define kb where "kb = sint (kb_align g)"
  define c where "c = sint (heads g) * sint (sectors g)"
  have S0: "0 \<le> S" and z0: "0 \<le> z" by (simp_all add: S_def z_def)
  have cpos: "0 < sint (heads g) * sint (sectors g)" using geo by simp
  have b: "S + (sint (sectors g) + sint (kb_align g) + 2 * z
                      + sint (heads g) * sint (sectors g)) < 2 ^ 31"
    using bound by (simp add: request_demand_def S_def z_def)
  then have b63: "S + (sint (sectors g) + sint (kb_align g) + 2 * z
                      + sint (heads g) * sint (sectors g)) < 2 ^ 63" by simp
  note A = aligned_start_bounds [OF geo(3), of S, folded A_def]
  note En = aligned_end_bounds [OF cpos, of A z, folded E_def]
  note rv = rounding_values [OF geo S0 z0 b63, folded A_def, folded E_def]
  have ar: "0 < sec" "0 \<le> kb" "0 < c" "S + sec \<le> A" "A \<le> S + sec + kb"
      "A + 2 * z \<le> E" "E \<le> A + 2 * z + c" "S + (sec + kb + 2 * z + c) < 2 ^ 31"
    using geo(2,3) cpos A En b unfolding sec_def kb_def c_def by blast+
  have sw: "ps_sect st = word_of_int S" by (simp add: S_def)
  have secw: "(scast (sectors g) :: 64 word) = word_of_int sec" unfolding sec_def by (rule scast_eq)
  have zw: "p_size p = word_of_int z" by (simp add: z_def)
  have s0: "ps_sect st + scast (sectors g) = (word_of_int (S + sec) :: 64 word)"
    unfolding sw secw by simp
  have "(scast (word_of_int (S + sec) :: 32 word) :: 64 word) = word_of_int (S + sec)"
    using ar S0 z0 by (intro scast_woi) simp_all
  then have x0: "(scast (ucast (ps_sect st + scast (sectors g)) :: 32 word) :: 64 word)
      = word_of_int (S + sint (sectors g))"
    unfolding s0 ucast_woi sec_def .
  from ptable_step_shape [OF step] obtain r sect2 where
    r1: "(if kb_align g \<noteq> 0
            then round_to_kb g (scast (ucast (ps_sect st + scast (sectors g)) :: 32 word))
            else Inr (scast (ucast (ps_sect st + scast (sectors g)) :: 32 word))) = Inr r"
    and r2: "(if kb_align g = 0 then round_to_cyl g (scast (ucast r :: 32 word) + p_size p * 2)
            else Inr (scast (ucast r :: 32 word) + p_size p * 2)) = Inr sect2"
    and o1: "ps_sect st' = sect2"
    and o2: "ps_out st' = ps_out st @
             [sint ((scast (ucast r :: 32 word) :: 64 word) * 512),
              sint ((scast (ucast (sect2 - scast (ucast r :: 32 word)) :: 32 word) :: 64 word) * 512)]"
    by blast
  from r1 rv(1) have rA: "r = word_of_int A" unfolding x0 by simp
  have "(scast (word_of_int A :: 32 word) :: 64 word) = word_of_int A"
    using ar S0 z0 by (intro scast_woi) simp_all
  then have y0: "(scast (ucast r :: 32 word) :: 64 word) = word_of_int A"
    unfolding rA ucast_woi .
  have e0: "scast (ucast r :: 32 word) + p_size p * 2 = word_of_int (A + 2 * z)"
    unfolding y0 zw by simp
  from r2 rv(2) have sect2E: "sect2 = word_of_int E" unfolding e0 by simp
  have d0: "sect2 - scast (ucast r :: 32 word) = word_of_int (E - A)"
    unfolding y0 sect2E by simp
  have "(scast (word_of_int (E - A) :: 32 word) :: 64 word) = word_of_int (E - A)"
    using ar S0 z0 by (intro scast_woi) simp_all
  then have len: "(scast (ucast (sect2 - scast (ucast r :: 32 word)) :: 32 word) :: 64 word)
      = word_of_int (E - A)"
    unfolding d0 ucast_woi .
  have m1: "(word_of_int A :: 64 word) * 512 = word_of_int (512 * A)" by simp
  have "sint (word_of_int (512 * A) :: 64 word) = 512 * A"
    using ar S0 z0 by (intro sint_woi) simp_all
  then have l1: "sint ((scast (ucast r :: 32 word) :: 64 word) * 512) = 512 * A"
    unfolding y0 m1 .
  have m2: "(word_of_int (E - A) :: 64 word) * 512 = word_of_int (512 * (E - A))" by simp
  have "sint (word_of_int (512 * (E - A)) :: 64 word) = 512 * (E - A)"
    using ar S0 z0 by (intro sint_woi) simp_all
  then have l2: "sint ((scast (ucast (sect2 - scast (ucast r :: 32 word)) :: 32 word) :: 64 word) * 512)
      = 512 * (E - A)"
    unfolding len m2 .
  have "0 \<le> E" "E < 2 ^ 64" using ar S0 z0 by simp_all
  then have uE: "uint sect2 = E" unfolding sect2E by (simp add: uint_woi)
  show "ps_out st' = ps_out st @
           [512 * aligned_start g (uint (ps_sect st)),
            512 * (aligned_end g (aligned_start g (uint (ps_sect st))) (uint (p_size p))
                     - aligned_start g (uint (ps_sect st)))]"
    unfolding o2 l1 l2 by (simp add: E_def A_def S_def z_def)
  show "uint (ps_sect st') = aligned_end g (aligned_start g (uint (ps_sect st))) (uint (p_size p))"
    using o1 uE by (simp add: E_def A_def S_def z_def)
qed

lemma chained_non_overlapping: "chained lo plan \<Longrightarrow> non_overlapping plan"
  by (induction plan arbitrary: lo rule: non_overlapping.induct) auto

lemma request_demand_nonneg:
  assumes "0 < sint (heads g)" "0 < sint (sectors g)" "0 \<le> sint (kb_align g)"
  shows "0 \<le> request_demand g p"
proof -
  have "0 < sint (heads g) * sint (sectors g)" using assms by simp
  moreover have "0 \<le> uint (p_size p)" by simp
  ultimately show ?thesis using assms unfolding request_demand_def by linarith
qed

lemma demand_nonneg:
  assumes "0 < sint (heads g)" "0 < sint (sectors g)" "0 \<le> sint (kb_align g)"
  shows "0 \<le> demand g ps"
  using request_demand_nonneg [OF assms]
  by (induction ps) (auto simp: demand_def intro: add_nonneg_nonneg)

lemma demand_Cons: "demand g (p # ps) = request_demand g p + demand g ps"
  by (simp add: demand_def)

lemma step_advance:
  assumes geo: "0 < sint (heads g)" "0 < sint (sectors g)" "0 \<le> sint (kb_align g)"
  shows "aligned_end g (aligned_start g S) z \<le> S + (sint (sectors g) + sint (kb_align g)
           + 2 * z + sint (heads g) * sint (sectors g))"
proof -
  have cpos: "0 < sint (heads g) * sint (sectors g)" using geo by simp
  show ?thesis
    using aligned_start_bounds [OF geo(3), of S]
      aligned_end_bounds [OF cpos, of "aligned_start g S" z]
    by linarith
qed

lemma step_chained:
  assumes geo: "0 < sint (heads g)" "0 < sint (sectors g)" "0 \<le> sint (kb_align g)"
    and z: "0 \<le> z"
    and rest: "chained (512 * aligned_end g (aligned_start g S) z) plan"
  shows "chained (512 * S)
           ((512 * aligned_start g S,
             512 * (aligned_end g (aligned_start g S) z - aligned_start g S)) # plan)"
proof -
  define A where "A = aligned_start g S"
  define E where "E = aligned_end g A z"
  have cpos: "0 < sint (heads g) * sint (sectors g)" using geo by simp
  note A = aligned_start_bounds [OF geo(3), of S, folded A_def]
  note En = aligned_end_bounds [OF cpos, of A z, folded E_def]
  have "S < A" "A \<le> E" using A En geo z by linarith+
  moreover have "512 * A + 512 * (E - A) = 512 * E" by simp
  ultimately show ?thesis
    using rest by (simp add: A_def [symmetric] E_def [symmetric])
qed

lemma ptable_loop_chained:
  assumes geo: "0 < sint (heads g)" "0 < sint (sectors g)" "0 \<le> sint (kb_align g)"
      "sint (heads g) * sint (sectors g) < 2 ^ 31"
  shows "uint (ps_sect st) + demand g ps < 2 ^ 31 \<Longrightarrow>
     \<exists>new. ptable_lines (ptable_loop g i ps st) = ps_out st @ new
          \<and> chained (512 * uint (ps_sect st)) (lines_plan new)"
proof (induction ps arbitrary: i st)
  case Nil
  then show ?case by (simp add: ptable_lines_def)
next
  case (Cons p ps)
  note dn = demand_nonneg [OF geo(1-3), of ps] request_demand_nonneg [OF geo(1-3), of p]
  from Cons.prems have b: "uint (ps_sect st) + request_demand g p + demand g ps < 2 ^ 31"
    by (simp add: demand_Cons)
  show ?case
  proof (cases "p_size p = 0")
    case True
    show ?thesis
    proof (cases "ignore_null_sized_partition g")
      case True
      from b dn have "uint (ps_sect st) + demand g ps < 2 ^ 31" by linarith
      from Cons.IH [OF this, of "Suc i"] \<open>p_size p = 0\<close> True show ?thesis by simp
    next
      case False
      with \<open>p_size p = 0\<close> show ?thesis by (simp add: ptable_lines_def)
    qed
  next
    case False
    show ?thesis
    proof (cases "ptable_step g i p st")
      case (Inl err)
      with False show ?thesis by (simp add: ptable_lines_def)
    next
      case (Inr st1)
      from b dn have b1: "uint (ps_sect st) + request_demand g p < 2 ^ 31" by linarith
      note P = ptable_step_plan [OF Inr geo b1]
      have S0: "0 \<le> uint (ps_sect st)" and z0: "0 \<le> uint (p_size p)" by simp_all
      have le: "uint (ps_sect st1) \<le> uint (ps_sect st) + request_demand g p"
        unfolding P(2) request_demand_def by (rule step_advance [OF geo(1-3)])
      with b have "uint (ps_sect st1) + demand g ps < 2 ^ 31" by linarith
      from Cons.IH [OF this, of "Suc i"] obtain new
        where n: "ptable_lines (ptable_loop g (Suc i) ps st1) = ps_out st1 @ new"
          and c: "chained (512 * uint (ps_sect st1)) (lines_plan new)"
        by blast
      from c have "chained (512 * uint (ps_sect st))
           ((512 * aligned_start g (uint (ps_sect st)),
             512 * (aligned_end g (aligned_start g (uint (ps_sect st))) (uint (p_size p))
                      - aligned_start g (uint (ps_sect st)))) # lines_plan new)"
        unfolding P(2) by (rule step_chained [OF geo(1-3) z0])
      with n False Inr show ?thesis by (simp add: P(1))
    qed
  qed
qed

lemma gptable_loop_chained:
  assumes geo: "0 < sint (heads g)" "0 < sint (sectors g)" "0 \<le> sint (kb_align g)"
      "sint (heads g) * sint (sectors g) < 2 ^ 31"
  shows "uint (gs_sect st) + demand g ps < 2 ^ 54 \<Longrightarrow>
     \<exists>new. gptable_lines (gptable_loop g guid i ps st) = gs_out st @ new
          \<and> chained (512 * uint (gs_sect st)) (lines_plan new)"
proof (induction ps arbitrary: i st)
  case Nil
  then show ?case by (simp add: gptable_lines_def)
next
  case (Cons p ps)
  note dn = demand_nonneg [OF geo(1-3), of ps] request_demand_nonneg [OF geo(1-3), of p]
  from Cons.prems have b: "uint (gs_sect st) + request_demand g p + demand g ps < 2 ^ 54"
    by (simp add: demand_Cons)
  show ?case
  proof (cases "p_size p = 0")
    case True
    show ?thesis
    proof (cases "ignore_null_sized_partition g")
      case True
      from b dn have "uint (gs_sect st) + demand g ps < 2 ^ 54" by linarith
      from Cons.IH [OF this, of "Suc i"] \<open>p_size p = 0\<close> True show ?thesis by simp
    next
      case False
      with \<open>p_size p = 0\<close> show ?thesis by (simp add: gptable_lines_def)
    qed
  next
    case False
    show ?thesis
    proof (cases "gptable_step g guid i p st")
      case (Inl err)
      with False show ?thesis by (simp add: gptable_lines_def)
    next
      case (Inr st1)
      from b dn have b1: "uint (gs_sect st) + request_demand g p < 2 ^ 54" by linarith
      note P = gptable_step_plan [OF Inr geo b1]
      have S0: "0 \<le> uint (gs_sect st)" and z0: "0 \<le> uint (p_size p)" by simp_all
      have le: "uint (gs_sect st1) \<le> uint (gs_sect st) + request_demand g p"
        unfolding P(2) request_demand_def by (rule step_advance [OF geo(1-3)])
      with b have "uint (gs_sect st1) + demand g ps < 2 ^ 54" by linarith
      from Cons.IH [OF this, of "Suc i"] obtain new
        where n: "gptable_lines (gptable_loop g guid (Suc i) ps st1) = gs_out st1 @ new"
          and c: "chained (512 * uint (gs_sect st1)) (lines_plan new)"
        by blast
      from c have "chained (512 * uint (gs_sect st))
           ((512 * aligned_start g (uint (gs_sect st)),
             512 * (aligned_end g (aligned_start g (uint (gs_sect st))) (uint (p_size p))
                      - aligned_start g (uint (gs_sect st)))) # lines_plan new)"
        unfolding P(2) by (rule step_chained [OF geo(1-3) z0])
      with n False Inr show ?thesis by (simp add: P(1))
    qed
  qed
qed

lemma printed_write_file: "printed (write_file e out ws) = out"
  by (simp add: write_file_def split: prod.splits)

lemma printed_gen_ptable:
  "printed (gen_ptable e g sg) = ptable_lines (ptable_loop g 0 (parts g) ptable_init)"
  by (simp add: gen_ptable_def ptable_lines_def printed_write_file split: sum.splits prod.splits)

lemma printed_gen_gptable:
  "printed (gen_gptable e g sg guid) = gptable_lines (gptable_loop g guid 0 (parts g) gptable_init)"
  by (simp add: gen_gptable_def gptable_lines_def printed_write_file Let_def
      split: sum.splits prod.splits)

lemma overflow_ptable_loop:
  "\<exists>st. ptable_loop overflow_config 0 (parts overflow_config) ptable_init = Inr st
        \<and> ps_out st = [16384, - 16384, 16384, 49152]
        \<and> pte_start (ps_pte st ! 0) = 32 \<and> pte_start (ps_pte st ! 1) = 32"
  apply (simp add: overflow_config_def ptable_init_def ptable_step_def round_to_cyl_def
      div_traps_def c_mod_def signed_modulo_int_def)
  apply (simp add: to_chs_def div_traps_def c_mod_def c_div_def signed_modulo_int_def
      signed_divide_int_def)
  apply (simp add: ptable_step_def round_to_cyl_def div_traps_def c_mod_def
      signed_modulo_int_def)
  apply (simp add: to_chs_def div_traps_def c_mod_def c_div_def signed_modulo_int_def
      signed_divide_int_def)
  done

lemma pte_entry_start_bytes:
  assumes "pte_wf x"
  shows "pte_entry_start (pte_bytes x) = pte_start x"
proof -
  from assms have "take 4 (drop 8 (pte_bytes x)) = le32 (pte_start x)"
    by (simp add: pte_bytes_def pte_wf_def)
  then show ?thesis by (simp only: pte_entry_start_def le_decode_le32)
qed

text \<open>
  Claim C2, where it fails. With 4 heads, 32 sectors per track, cylinder alignment and two
  requests of \<^verbatim>\<open>0x7FFFFFC0\<close> KiB and 1 KiB, all sizes non-zero, \<^verbatim>\<open>gen_ptable\<close> returns 0. The
  first partition ends at sector \<open>2 ^ 32\<close>, the cursor \<^verbatim>\<open>sect\<close> holds that value, and
  \<^verbatim>\<open>int start = sect + sectors\<close> keeps its low 32 bits only: the second partition starts
  at sector 32 like the first. The lines printed are 16384, -16384, 16384 and 49152, and
  both entries of the table written to the file carry the start sector 32.
\<close>

theorem large_requests_overlap:
  "0 < sint (heads overflow_config) \<and> 0 < sint (sectors overflow_config)
   \<and> list_all (\<lambda>p. p_size p \<noteq> 0) (parts overflow_config)
   \<and> result (gen_ptable good_env overflow_config 0) = Inr ()
   \<and> printed (gen_ptable good_env overflow_config 0) = [16384, - 16384, 16384, 49152]
   \<and> \<not> non_overlapping (lines_plan (printed (gen_ptable good_env overflow_config 0)))
   \<and> pte_entry_start (slot 16 0 (mbr_table (gen_ptable good_env overflow_config 0))) = 32
   \<and> pte_entry_start (slot 16 1 (mbr_table (gen_ptable good_env overflow_config 0))) = 32"
proof -
  let ?R = "gen_ptable good_env overflow_config 0"
  from overflow_ptable_loop obtain st
    where l: "ptable_loop overflow_config 0 (parts overflow_config) ptable_init = Inr st"
      and o: "ps_out st = [16384, - 16384, 16384, 49152]"
      and s: "pte_start (ps_pte st ! 0) = 32" "pte_start (ps_pte st ! 1) = 32"
    by blast
  have ok: "result ?R = Inr ()" using l by (rule gen_ptable_good)
  have p: "printed ?R = [16384, - 16384, 16384, 49152]"
    using l o by (simp add: printed_gen_ptable ptable_lines_def)
  have t: "pte_entry_start (slot 16 0 (mbr_table ?R)) = 32
         \<and> pte_entry_start (slot 16 1 (mbr_table ?R)) = 32"
    using ok
  proof (rule gen_ptable_written)
    fix st'
    assume l': "ptable_loop overflow_config 0 (parts overflow_config) ptable_init = Inr st'"
      and w: "mbr_table ?R = concat (map pte_bytes (ps_pte st'))"
      and sl: "\<And>k. k < 4 \<Longrightarrow>
               slot 16 k (concat (map pte_bytes (ps_pte st'))) = pte_bytes (ps_pte st' ! k)"
    from l l' have e: "st' = st" by simp
    have "slot 16 0 (mbr_table ?R) = pte_bytes (ps_pte st ! 0)"
      "slot 16 1 (mbr_table ?R) = pte_bytes (ps_pte st ! 1)"
      using sl [of 0] sl [of 1] by (simp_all add: w e)
    then show ?thesis
      using ptable_loop_wf [OF l, of 0] ptable_loop_wf [OF l, of 1] s
      by (simp add: pte_entry_start_bytes)
  qed
  have g: "0 < sint (heads overflow_config)" "0 < sint (sectors overflow_config)"
    "list_all (\<lambda>p. p_size p \<noteq> 0) (parts overflow_config)"
    by (simp_all add: overflow_config_def)
  have n: "\<not> non_overlapping (lines_plan (printed ?R))" by (simp add: p)
  from g ok p n t show ?thesis by blast
qed

text \<open>
  Claim C2, within the range of the machine integers. Let the heads and the sectors per
  track be positive with a product below \<open>2 ^ 31\<close>, and the alignment not negative. Every
  request moves the cursor by at most \<open>sectors + kb_align + 2 * size + heads * sectors\<close>
  sectors. If these bounds add up to less than \<open>2 ^ 31\<close>, the plan that \<^verbatim>\<open>gen_ptable\<close>
  prints does not overlap: the offsets increase strictly in the order of the requests,
  and every partition starts at or behind the end (offset plus length) of the one before
  it. The same holds of \<^verbatim>\<open>gen_gptable\<close> if they add up to less than \<open>2 ^ 54\<close>. This holds
  of every run, also of one that ends with an error, for the lines printed before it, and
  whether requests of size 0 are skipped or not.
\<close>

theorem plans_do_not_overlap:
  assumes "0 < sint (heads g)" "0 < sint (sectors g)" "0 \<le> sint (kb_align g)"
    and "sint (heads g) * sint (sectors g) < 2 ^ 31"
  shows "(demand g (parts g) < 2 ^ 31 \<longrightarrow>
            non_overlapping (lines_plan (printed (gen_ptable e g sg))))
       \<and> (demand g (parts g) < 2 ^ 54 \<longrightarrow>
            non_overlapping (lines_plan (printed (gen_gptable e g sg guid))))"
proof (intro conjI impI)
  assume "demand g (parts g) < 2 ^ 31"
  then have "uint (ps_sect ptable_init) + demand g (parts g) < 2 ^ 31"
    by (simp add: ptable_init_def)
  from ptable_loop_chained [OF assms this, of 0] obtain new
    where "ptable_lines (ptable_loop g 0 (parts g) ptable_init) = new"
      and "chained (512 * uint (ps_sect ptable_init)) (lines_plan new)"
    by (auto simp: ptable_init_def)
  then show "non_overlapping (lines_plan (printed (gen_ptable e g sg)))"
    by (auto simp: printed_gen_ptable intro: chained_non_overlapping)
next
  assume "demand g (parts g) < 2 ^ 54"
  then have "uint (gs_sect gptable_init) + demand g (parts g) < 2 ^ 54"
    by (simp add: gptable_init_def)
  from gptable_loop_chained [OF assms this, of guid 0] obtain new
    where "gptable_lines (gptable_loop g guid 0 (parts g) gptable_init) = new"
      and "chained (512 * uint (gs_sect gptable_init)) (lines_plan new)"
    by (auto simp: gptable_init_def)
  then show "non_overlapping (lines_plan (printed (gen_gptable e g sg guid)))"
    by (auto simp: printed_gen_gptable intro: chained_non_overlapping)
qed

text \<open>
  The example of 16 heads, 63 sectors and requests of 1024, 0 and 2048 KiB: the partitions
  are at the sectors 63 and 3087, with 2961 and 4977 sectors.
\<close>

theorem plans_do_not_overlap_witness:
  "non_overlapping (lines_plan (printed (gen_ptable good_env example_config 0)))
   \<and> non_overlapping (lines_plan
        (printed (gen_gptable good_env example_config 0 (ms_guid main_init))))
   \<and> printed (gen_ptable good_env example_config 0) = [63 * 512, 2961 * 512, 3087 * 512, 4977 * 512]"
proof -
  have g: "0 < sint (heads example_config)" "0 < sint (sectors example_config)"
    "0 \<le> sint (kb_align example_config)"
    "sint (heads example_config) * sint (sectors example_config) < 2 ^ 31"
    by (simp_all add: example_config_def)
  have d: "demand example_config (parts example_config) < 2 ^ 31"
    "demand example_config (parts example_config) < 2 ^ 54"
    by (simp_all add: demand_def request_demand_def example_config_def)
  from example_ptable_loop [of 1] have p: "printed (gen_ptable good_env example_config 0)
      = [63 * 512, 2961 * 512, 3087 * 512, 4977 * 512]"
    by (auto simp: printed_gen_ptable ptable_lines_def example_config_active)
  from plans_do_not_overlap [OF g, of good_env 0 "ms_guid main_init"] d p
  show ?thesis by blast
qed

end
